theory Spec2Isabelle
  imports Main "HOL-Library.Word"
begin

section \<open>Vaultlight backend (backend/server.js): a shallow embedding\<close>

text \<open>
  The backend is a single Express module. Its helper functions are embedded as HOL
  functions of the same name; the three request handlers are embedded as functions on an
  explicit world state (catalog tables, file system, counters of the random sources and
  an effect log). A string is the UTF-8 encoding of the JavaScript string; the characters the
  code compares with are ASCII, so each of them is one byte that occurs in no other encoding.
\<close>

subsection \<open>JavaScript string primitives\<close>

type_synonym byte = "8 word"
type_synonym bytes = "byte list"

definition startsWith :: "string \<Rightarrow> string \<Rightarrow> bool" where
  "startsWith s p = (take (length p) s = p)"

text \<open>\<^verbatim>\<open>s.slice(a, b)\<close> for \<open>0 \<le> a\<close>, \<open>0 \<le> b\<close>.\<close>

definition slice :: "string \<Rightarrow> nat \<Rightarrow> nat \<Rightarrow> string" where
  "slice s a b = take (b - a) (drop a s)"

text \<open>
  \<^verbatim>\<open>toLowerCase()\<close> on the ASCII letters. No character outside ASCII lower-cases to one
  of the letters of \<^verbatim>\<open>.mov\<close> and \<^verbatim>\<open>.qt\<close>, the only strings the result is compared with.
\<close>

definition toLowerChar :: "char \<Rightarrow> char" where
  "toLowerChar c =
     (case map_of (zip ''ABCDEFGHIJKLMNOPQRSTUVWXYZ'' ''abcdefghijklmnopqrstuvwxyz'') c of
        Some d \<Rightarrow> d
      | None \<Rightarrow> c)"

definition toLowerCase :: "string \<Rightarrow> string" where
  "toLowerCase s = map toLowerChar s"

subsection \<open>Hexadecimal encoding of buffers\<close>

definition hex_digit :: "nat \<Rightarrow> char" where
  "hex_digit n = ''0123456789abcdef'' ! n"

definition unhex :: "char \<Rightarrow> nat option" where
  "unhex c =
     (if c \<in> set ''0123456789'' then Some (of_char c - 48)
      else if c \<in> set ''abcdef'' then Some (of_char c - 87)
      else if c \<in> set ''ABCDEF'' then Some (of_char c - 55)
      else None)"

definition is_hex :: "char \<Rightarrow> bool" where
  "is_hex c = (unhex c \<noteq> None)"

text \<open>\<^verbatim>\<open>buf.toString('hex')\<close>: two lower-case digits per byte.\<close>

fun to_hex :: "bytes \<Rightarrow> string" where
  "to_hex [] = []"
| "to_hex (b # bs) = hex_digit (unat b div 16) # hex_digit (unat b mod 16) # to_hex bs"

text \<open>
  \<^verbatim>\<open>Buffer.from(s, 'hex')\<close>: decodes pairs of digits and stops at the first pair that is
  not two hexadecimal digits; a trailing single character is dropped.
\<close>

fun from_hex :: "string \<Rightarrow> bytes" where
  "from_hex (a # b # cs) =
     (case (unhex a, unhex b) of
        (Some h, Some l) \<Rightarrow> word_of_nat (16 * h + l) # from_hex cs
      | _ \<Rightarrow> [])"
| "from_hex _ = []"

subsection \<open>sanitizeFilename\<close>

text \<open>\<^verbatim>\<open>filename.replace(/["\\\n\r]/g, '_')\<close>\<close>

definition unsafe_chars :: "char set" where
  "unsafe_chars = {CHR 0x22, CHR 0x5C, CHR 0x0A, CHR 0x0D}"

definition sanitizeFilename :: "string \<Rightarrow> string" where
  "sanitizeFilename filename = map (\<lambda>c. if c \<in> unsafe_chars then CHR ''_'' else c) filename"

text \<open>The header value \<^verbatim>\<open>`inline; filename="${sanitizeFilename(name)}"`\<close>.\<close>

definition contentDisposition :: "string \<Rightarrow> string" where
  "contentDisposition original_name =
     ''inline; filename='' @ [CHR 0x22] @ sanitizeFilename original_name @ [CHR 0x22]"

text \<open>
  \<^verbatim>\<open>res.setHeader\<close> throws on a value with a character outside tab, U+0020 to U+007E and
  U+0080 to U+00FF (Node's \<^verbatim>\<open>/[^\t\x20-\x7e\x80-\xff]/\<close>). On the UTF-8 bytes: an allowed
  ASCII byte, or a two-byte sequence with lead byte C2 or C3, which encodes U+0080 to U+00FF.
\<close>

definition header_ascii :: "char \<Rightarrow> bool" where
  "header_ascii c = (of_char c = (9::nat) \<or> (32 \<le> (of_char c :: nat) \<and> (of_char c :: nat) \<le> 126))"

definition latin1_pair :: "char \<Rightarrow> char \<Rightarrow> bool" where
  "latin1_pair c d =
     (((of_char c :: nat) = 194 \<or> (of_char c :: nat) = 195)
      \<and> 128 \<le> (of_char d :: nat) \<and> (of_char d :: nat) \<le> 191)"

fun validHeaderValue :: "string \<Rightarrow> bool" where
  "validHeaderValue [] = True"
| "validHeaderValue [c] = header_ascii c"
| "validHeaderValue (c # d # cs) =
     (if header_ascii c then validHeaderValue (d # cs)
      else latin1_pair c d \<and> validHeaderValue cs)"

subsection \<open>validateUuid\<close>

text \<open>
  \<^verbatim>\<open>/^[0-9a-f]{8}-[0-9a-f]{4}-[1-5][0-9a-f]{3}-[89ab][0-9a-f]{3}-[0-9a-f]{12}$/i\<close>:
  the pattern is a sequence of 36 character classes, matched case-insensitively against
  the whole string.
\<close>

datatype char_class = HexC | DashC | VersionC | VariantC

fun in_class :: "char_class \<Rightarrow> char \<Rightarrow> bool" where
  "in_class HexC c = is_hex c"
| "in_class DashC c = (c = CHR ''-'')"
| "in_class VersionC c = (c \<in> set ''12345'')"
| "in_class VariantC c = (c \<in> set ''89abAB'')"

definition uuid_pattern :: "char_class list" where
  "uuid_pattern =
     replicate 8 HexC @ [DashC] @ replicate 4 HexC @ [DashC] @
     [VersionC] @ replicate 3 HexC @ [DashC] @
     [VariantC] @ replicate 3 HexC @ [DashC] @ replicate 12 HexC"

definition validateUuid :: "string \<Rightarrow> bool" where
  "validateUuid v = list_all2 in_class uuid_pattern v"

subsection \<open>loadEncryptionKey\<close>

datatype error = Error string

text \<open>
  \<open>rawKey\<close> is \<^verbatim>\<open>process.env.ENCRYPTION_KEY\<close>: a string or undefined (\<open>None\<close>).
  \<^verbatim>\<open>Buffer.from(s, 'base64')\<close> is Node's decoder, taken as the parameter \<open>b64\<close>; it
  returns a buffer for every string and never throws, so the \<^verbatim>\<open>catch\<close> is dead.
\<close>

definition hex64 :: "string \<Rightarrow> bool" where
  "hex64 s = (length s = 64 \<and> list_all is_hex s)"

definition loadEncryptionKey :: "(string \<Rightarrow> bytes) \<Rightarrow> string option \<Rightarrow> error + bytes" where
  "loadEncryptionKey b64 rawKey =
     (case rawKey of
        None \<Rightarrow> Inl (Error ''ENCRYPTION_KEY is required'')
      | Some k \<Rightarrow>
          if k = [] then Inl (Error ''ENCRYPTION_KEY is required'')
          else if hex64 k then Inr (from_hex k)
          else if length (b64 k) = 32 then Inr (b64 k)
          else Inl (Error ''ENCRYPTION_KEY must be a 32-byte key in hex or base64 form''))"

subsection \<open>Node's path module (POSIX)\<close>

text \<open>
  The server runs on Linux (see the Dockerfile), so \<^verbatim>\<open>path\<close> is \<^verbatim>\<open>path.posix\<close>. Its
  functions are library code; they are embedded here by what they compute on the
  \<^verbatim>\<open>/\<close>-separated segments of a path.
\<close>

definition isAbsolute :: "string \<Rightarrow> bool" where
  "isAbsolute p = (case p of [] \<Rightarrow> False | c # _ \<Rightarrow> c = CHR ''/'')"

text \<open>Splitting at every \<^verbatim>\<open>/\<close>; the result is never empty.\<close>

fun split_path :: "string \<Rightarrow> string list" where
  "split_path [] = [[]]"
| "split_path (c # cs) =
     (if c = CHR ''/'' then [] # split_path cs
      else (case split_path cs of [] \<Rightarrow> [[c]] | s # ss \<Rightarrow> (c # s) # ss))"

fun join_segs :: "string list \<Rightarrow> string" where
  "join_segs [] = []"
| "join_segs [s] = s"
| "join_segs (s # t # ss) = s @ CHR ''/'' # join_segs (t # ss)"

text \<open>
  One step of \<^verbatim>\<open>normalizeString\<close>: empty segments and \<^verbatim>\<open>.\<close> are dropped, \<^verbatim>\<open>..\<close> removes
  the last segment kept so far unless there is none or it is \<^verbatim>\<open>..\<close> itself; in that case
  \<^verbatim>\<open>..\<close> is kept when \<open>allowAboveRoot\<close> holds and dropped otherwise.
\<close>

definition norm_step :: "bool \<Rightarrow> string list \<Rightarrow> string \<Rightarrow> string list" where
  "norm_step allowAboveRoot res seg =
     (if seg = [] \<or> seg = ''.'' then res
      else if seg = ''..'' then
        (if res \<noteq> [] \<and> last res \<noteq> ''..'' then butlast res
         else if allowAboveRoot then res @ [''..'']
         else res)
      else res @ [seg])"

definition normalize_segs :: "bool \<Rightarrow> string \<Rightarrow> string list" where
  "normalize_segs allowAboveRoot p = foldl (norm_step allowAboveRoot) [] (split_path p)"

definition normalizeString :: "string \<Rightarrow> bool \<Rightarrow> string" where
  "normalizeString p allowAboveRoot = join_segs (normalize_segs allowAboveRoot p)"

definition posix_normalize :: "string \<Rightarrow> string" where
  "posix_normalize p =
     (if p = [] then ''.''
      else
        let isAbs = (hd p = CHR ''/'');
            trailingSeparator = (last p = CHR ''/'');
            q = normalizeString p (\<not> isAbs)
        in if q = [] then (if isAbs then ''/'' else if trailingSeparator then ''./'' else ''.'')
           else (if isAbs then ''/'' else []) @ q @ (if trailingSeparator then ''/'' else []))"

text \<open>\<^verbatim>\<open>path.join(a, b)\<close>: empty arguments are skipped, the rest joined by \<^verbatim>\<open>/\<close> and normalized.\<close>

definition posix_join :: "string \<Rightarrow> string \<Rightarrow> string" where
  "posix_join a b =
     (let joined = (if a = [] then b else if b = [] then a else a @ CHR ''/'' # b)
      in if joined = [] then ''.'' else posix_normalize joined)"

text \<open>
  \<^verbatim>\<open>path.resolve(...args)\<close>: arguments are prepended from the right until one is absolute;
  the working directory is used last. \<open>resolve_loop\<close> takes the arguments right to left
  (the working directory at the end) and returns the concatenation and whether it is
  absolute.
\<close>

fun resolve_loop :: "string list \<Rightarrow> string \<Rightarrow> string \<times> bool" where
  "resolve_loop [] resolvedPath = (resolvedPath, False)"
| "resolve_loop (p # ps) resolvedPath =
     (if p = [] then resolve_loop ps resolvedPath
      else if hd p = CHR ''/'' then (p @ CHR ''/'' # resolvedPath, True)
      else resolve_loop ps (p @ CHR ''/'' # resolvedPath))"

definition posix_resolve :: "string \<Rightarrow> string list \<Rightarrow> string" where
  "posix_resolve cwd args =
     (case resolve_loop (rev args @ [cwd]) [] of
        (resolvedPath, resolvedAbsolute) \<Rightarrow>
          let q = normalizeString resolvedPath (\<not> resolvedAbsolute)
          in if resolvedAbsolute then CHR ''/'' # q
             else if q \<noteq> [] then q else ''.'')"

text \<open>The segments of a resolved path: \<^verbatim>\<open>/a/b\<close> has \<^verbatim>\<open>a\<close> and \<^verbatim>\<open>b\<close>, the root has none.\<close>

definition path_segs :: "string \<Rightarrow> string list" where
  "path_segs p = filter (\<lambda>s. s \<noteq> []) (split_path p)"

fun common_prefix :: "string list \<Rightarrow> string list \<Rightarrow> nat" where
  "common_prefix (x # xs) (y # ys) = (if x = y then Suc (common_prefix xs ys) else 0)"
| "common_prefix _ _ = 0"

text \<open>
  \<^verbatim>\<open>path.relative(from, to)\<close>: both are resolved; one \<^verbatim>\<open>..\<close> for every segment of
  \<open>from\<close> below the longest common leading run of whole segments, then the remaining
  segments of \<open>to\<close>.
\<close>

definition posix_relative :: "string \<Rightarrow> string \<Rightarrow> string \<Rightarrow> string" where
  "posix_relative cwd from to =
     (if from = to then []
      else
        let f = posix_resolve cwd [from];
            t = posix_resolve cwd [to]
        in if f = t then []
           else
             let fs = path_segs f;
                 ts = path_segs t;
                 n = common_prefix fs ts
             in join_segs (replicate (length fs - n) ''..'' @ drop n ts))"

text \<open>
  \<^verbatim>\<open>path.extname(path)\<close>, the loop of the library as it is written: the index runs from the
  last character down to 0; \<open>extname_loop p n st\<close> has \<open>n\<close> characters left to visit.
  The value \<open>-1\<close> of the library's index variables is kept.
\<close>

record ext_state =
  startDot :: int
  startPart :: int
  end_ix :: int
  matchedSlash :: bool
  preDotState :: int

definition ext_step :: "char \<Rightarrow> nat \<Rightarrow> ext_state \<Rightarrow> ext_state" where
  "ext_step code i st =
     (let st1 = (if end_ix st = -1 then st\<lparr>end_ix := int i + 1, matchedSlash := False\<rparr> else st)
      in if code = CHR ''.'' then
           (if startDot st1 = -1 then st1\<lparr>startDot := int i\<rparr>
            else if preDotState st1 \<noteq> 1 then st1\<lparr>preDotState := 1\<rparr>
            else st1)
         else if startDot st1 \<noteq> -1 then st1\<lparr>preDotState := -1\<rparr>
         else st1)"

fun extname_loop :: "string \<Rightarrow> nat \<Rightarrow> ext_state \<Rightarrow> ext_state" where
  "extname_loop p 0 st = st"
| "extname_loop p (Suc i) st =
     (if p ! i = CHR ''/'' then
        (if \<not> matchedSlash st then st\<lparr>startPart := int i + 1\<rparr>
         else extname_loop p i st)
      else extname_loop p i (ext_step (p ! i) i st))"

definition extname :: "string \<Rightarrow> string" where
  "extname p =
     (let st = extname_loop p (length p)
                 \<lparr>startDot = -1, startPart = 0, end_ix = -1, matchedSlash = True, preDotState = 0\<rparr>
      in if startDot st = -1 \<or> end_ix st = -1 \<or> preDotState st = 0 \<or>
            (preDotState st = 1 \<and> startDot st = end_ix st - 1 \<and> startDot st = startPart st + 1)
         then []
         else slice p (nat (startDot st)) (nat (end_ix st)))"

subsection \<open>Configuration and resolveStoragePath\<close>

text \<open>
  \<open>dirname\<close> is \<^verbatim>\<open>__dirname\<close>, \<open>tmpdir\<close> is \<^verbatim>\<open>os.tmpdir()\<close>, \<open>cwd\<close> the working directory,
  \<open>encryptionKey\<close> the loaded key and \<open>ffmpegStatic\<close> whether the bundled transcoder
  binary was found.
\<close>

record config =
  dirname :: string
  tmpdir :: string
  cwd :: string
  encryptionKey :: bytes
  ffmpegStatic :: bool

definition uploadsDir :: "config \<Rightarrow> string" where
  "uploadsDir cfg = posix_join (dirname cfg) ''uploads''"

definition resolveStoragePath :: "config \<Rightarrow> string \<Rightarrow> error + string" where
  "resolveStoragePath cfg storedPath =
     (let absolute = (if isAbsolute storedPath then storedPath
                      else posix_resolve (cwd cfg) [dirname cfg, storedPath]);
          relative = posix_relative (cwd cfg) (uploadsDir cfg) absolute
      in if startsWith relative ''..'' \<or> isAbsolute relative
         then Inl (Error ''Invalid file path'')
         else Inr absolute)"

text \<open>
  Containment as the file system sees it: the segments of the resolved root are a
  leading run of the segments of the resolved path.
\<close>

definition contained :: "config \<Rightarrow> string \<Rightarrow> bool" where
  "contained cfg p =
     (let root = path_segs (posix_resolve (cwd cfg) [uploadsDir cfg]);
          segs = path_segs (posix_resolve (cwd cfg) [p])
      in take (length root) segs = root)"

text \<open>
  A segment of a normalized path: not empty, not \<^verbatim>\<open>.\<close> or \<^verbatim>\<open>..\<close>, without \<^verbatim>\<open>/\<close>. Node gives
  \<^verbatim>\<open>__dirname\<close> as an absolute normalized path: \<^verbatim>\<open>/\<close> followed by such segments joined
  by \<^verbatim>\<open>/\<close>.
\<close>

definition clean_seg :: "string \<Rightarrow> bool" where
  "clean_seg s = (s \<noteq> [] \<and> s \<noteq> ''.'' \<and> s \<noteq> ''..'' \<and> CHR ''/'' \<notin> set s)"

subsection \<open>The world the handlers run in\<close>

text \<open>
  A row of table \<^verbatim>\<open>files\<close>, which is also the object \<^verbatim>\<open>persistUploadedFile\<close> returns.
  Every version of the upload path writes all columns but \<^verbatim>\<open>tag\<close>; rows that predate the
  column (added by \<^verbatim>\<open>ensureColumn\<close>) hold NULL there, which is \<open>None\<close>.
\<close>

record file_record =
  album_id :: nat
  filename :: string
  original_name :: string
  path :: string
  ftype :: string
  fsize :: nat
  iv :: string
  tag :: "string option"

record album =
  album_pk :: nat
  permalink :: string

text \<open>A file of \<^verbatim>\<open>req.files\<close> as multer's disk storage leaves it (\<open>tmp_path\<close> is \<^verbatim>\<open>file.path\<close>).\<close>

record multer_file =
  originalname :: string
  mimetype :: string
  tmp_path :: string

datatype event =
    DbInsertAlbum string
  | DbInsertFile string
  | DbSelectAlbum string
  | DbSelectFiles nat
  | DbSelectFile string
  | FsRead string
  | FsWrite string
  | FsUnlink string
  | Ffmpeg string string
  | ConsoleWarn string
  | ConsoleError string

text \<open>
  Both tables are kept in ascending id order (AUTOINCREMENT ids grow, so INSERT appends).
  The file system maps a path to the content of the file there; \<open>undeletable\<close> are the
  paths whose \<^verbatim>\<open>unlink\<close> fails with an error other than ENOENT. \<open>uuid_count\<close> and
  \<open>random_count\<close> count what has been drawn from the random sources, \<open>run_count\<close> the
  statements given to \<^verbatim>\<open>runAsync\<close>; \<open>log\<close> records the effects in the order they happen.
\<close>

record world =
  albums :: "album list"
  next_album_id :: nat
  files :: "file_record list"
  fs :: "string \<rightharpoonup> bytes"
  undeletable :: "string set"
  uuid_count :: nat
  random_count :: nat
  run_count :: nat
  log :: "event list"

datatype transcode_outcome =
    TranscodeOk bytes
  | TranscodeFailed "bytes option"

text \<open>
  What the process takes from outside: \<open>uuid_source n\<close> is the value of the \<open>n\<close>-th call
  of \<^verbatim>\<open>uuidv4()\<close>, \<open>random_source\<close> the stream of bytes behind \<^verbatim>\<open>crypto.randomBytes\<close>.
  \<open>gcm_encrypt\<close> is the AES-256-GCM cipher of \<^verbatim>\<open>crypto\<close> (key, IV, data; it returns the
  ciphertext and the authentication tag). \<open>gcm_decipher\<close> (key, IV, tag) and
  \<open>cbc_decipher\<close> (key, IV) are \<^verbatim>\<open>createDecipheriv\<close>, with \<^verbatim>\<open>setAuthTag\<close> for GCM: \<open>None\<close>
  when one of them throws, else the decipher stream, which maps the ciphertext to the
  plaintext or fails (\<open>None\<close>) while the data is piped through it. \<open>ffmpeg_run\<close> is the
  transcoder on the content of its input: it ends with an output file, or fails and
  leaves either nothing or a partial output file behind. \<open>run_fails n\<close> says that SQLite
  rejects the \<open>n\<close>-th statement given to \<^verbatim>\<open>runAsync\<close> (disk full, database locked, I/O
  error).
\<close>

record env =
  uuid_source :: "nat \<Rightarrow> string"
  random_source :: "nat \<Rightarrow> byte"
  gcm_encrypt :: "bytes \<Rightarrow> bytes \<Rightarrow> bytes \<Rightarrow> bytes \<times> bytes"
  gcm_decipher :: "bytes \<Rightarrow> bytes \<Rightarrow> bytes \<Rightarrow> (bytes \<Rightarrow> bytes option) option"
  cbc_decipher :: "bytes \<Rightarrow> bytes \<Rightarrow> (bytes \<Rightarrow> bytes option) option"
  ffmpeg_run :: "bytes \<Rightarrow> transcode_outcome"
  run_fails :: "nat \<Rightarrow> bool"

definition uuidv4 :: "env \<Rightarrow> world \<Rightarrow> string \<times> world" where
  "uuidv4 e w = (uuid_source e (uuid_count w), w\<lparr>uuid_count := Suc (uuid_count w)\<rparr>)"

definition randomBytes :: "env \<Rightarrow> nat \<Rightarrow> world \<Rightarrow> bytes \<times> world" where
  "randomBytes e n w =
     (map (random_source e) [random_count w ..< random_count w + n],
      w\<lparr>random_count := random_count w + n\<rparr>)"

definition emit :: "event \<Rightarrow> world \<Rightarrow> world" where
  "emit ev w = w\<lparr>log := log w @ [ev]\<rparr>"

subsection \<open>safeUnlink\<close>

text \<open>\<^verbatim>\<open>fs.promises.unlink\<close>: the error code on the left.\<close>

definition unlink :: "string \<Rightarrow> world \<Rightarrow> string + world" where
  "unlink p w =
     (if fs w p = None then Inl ''ENOENT''
      else if p \<in> undeletable w then Inl ''EPERM''
      else Inr (w\<lparr>fs := (fs w)(p := None)\<rparr>))"

definition safeUnlink :: "string \<Rightarrow> world \<Rightarrow> world" where
  "safeUnlink targetPath w =
     (if targetPath = [] then w
      else
        (case unlink targetPath (emit (FsUnlink targetPath) w) of
           Inr w' \<Rightarrow> w'
         | Inl code \<Rightarrow>
             if code \<noteq> ''ENOENT''
             then emit (ConsoleWarn (''Failed to remove temporary file '' @ targetPath))
                    (emit (FsUnlink targetPath) w)
             else emit (FsUnlink targetPath) w))"

subsection \<open>The upload path\<close>

definition quickTimeTypes :: "string set" where
  "quickTimeTypes = {''video/quicktime''}"

definition quickTimeExtensions :: "string set" where
  "quickTimeExtensions = {''.mov'', ''.qt''}"

definition shouldConvertToMp4 :: "multer_file \<Rightarrow> bool" where
  "shouldConvertToMp4 file =
     (let ext = toLowerCase (extname (originalname file))
      in mimetype file \<in> quickTimeTypes \<or> ext \<in> quickTimeExtensions)"

text \<open>
  \<^verbatim>\<open>convertToMp4\<close>: the output path is chosen here and is known to the caller only when
  the promise resolves. A failed run may leave a partial output at that path.
\<close>

definition convertToMp4 :: "config \<Rightarrow> env \<Rightarrow> string \<Rightarrow> world \<Rightarrow> (error + string) \<times> world" where
  "convertToMp4 cfg e inputPath w =
     (if \<not> ffmpegStatic cfg
      then (Inl (Error ''MOV conversion requires FFmpeg. Install ffmpeg-static to enable this feature.''), w)
      else
        (case uuidv4 e w of
           (u, w1) \<Rightarrow>
             let outputPath = posix_join (tmpdir cfg) (u @ ''.mp4'');
                 w2 = emit (Ffmpeg inputPath outputPath) w1
             in (case fs w2 inputPath of
                   None \<Rightarrow> (Inl (Error ''ffmpeg exited with an error''), w2)
                 | Some content \<Rightarrow>
                     (case ffmpeg_run e content of
                        TranscodeOk out \<Rightarrow> (Inr outputPath, w2\<lparr>fs := (fs w2)(outputPath \<mapsto> out)\<rparr>)
                      | TranscodeFailed None \<Rightarrow> (Inl (Error ''ffmpeg exited with an error''), w2)
                      | TranscodeFailed (Some partial) \<Rightarrow>
                          (Inl (Error ''ffmpeg exited with an error''),
                           w2\<lparr>fs := (fs w2)(outputPath \<mapsto> partial)\<rparr>)))))"

record encrypted =
  enc_filename :: string
  relativePath :: string
  enc_size :: nat
  ivHex :: string
  tagHex :: string

text \<open>
  \<^verbatim>\<open>encryptAndStoreFromDisk\<close>. The file system of the model has no directories, so the
  recursive \<^verbatim>\<open>mkdir\<close> has no counterpart. When the input cannot be read the pipeline
  rejects; the destination has been opened for writing by then, so it exists and is empty.
\<close>

definition encryptAndStoreFromDisk ::
  "config \<Rightarrow> env \<Rightarrow> string \<Rightarrow> string \<Rightarrow> world \<Rightarrow> (error + encrypted) \<times> world" where
  "encryptAndStoreFromDisk cfg e inputPath extension w =
     (case randomBytes e 12 w of
        (ivb, w1) \<Rightarrow>
          (case uuidv4 e w1 of
             (u, w2) \<Rightarrow>
               let fname = u @ extension;
                   relPath = posix_join ''uploads'' fname;
                   absolutePath = posix_join (dirname cfg) relPath;
                   w3 = emit (FsWrite absolutePath) (emit (FsRead inputPath) w2)
               in (case fs w3 inputPath of
                     None \<Rightarrow>
                       (Inl (Error ''ENOENT: no such file or directory''),
                        w3\<lparr>fs := (fs w3)(absolutePath \<mapsto> [])\<rparr>)
                   | Some content \<Rightarrow>
                       (case gcm_encrypt e (encryptionKey cfg) ivb content of
                          (ciphertext, authTag) \<Rightarrow>
                            (Inr \<lparr>enc_filename = fname,
                                  relativePath = posix_relative (cwd cfg) (dirname cfg) absolutePath,
                                  enc_size = length ciphertext,
                                  ivHex = to_hex ivb,
                                  tagHex = to_hex authTag\<rparr>,
                             w3\<lparr>fs := (fs w3)(absolutePath \<mapsto> ciphertext)\<rparr>)))))"

definition targetExtension :: "string \<Rightarrow> string" where
  "targetExtension extension =
     (if extension \<noteq> [] then (if startsWith extension ''.'' then extension else ''.'' @ extension)
      else [])"

text \<open>The object \<^verbatim>\<open>persistUploadedFile\<close> returns.\<close>

definition fileRecordOf :: "nat \<Rightarrow> multer_file \<Rightarrow> string \<Rightarrow> encrypted \<Rightarrow> file_record" where
  "fileRecordOf albumId file mimeType enc =
     \<lparr>album_id = albumId, filename = enc_filename enc,
      original_name = originalname file, path = relativePath enc,
      ftype = mimeType, fsize = enc_size enc,
      iv = ivHex enc, tag = Some (tagHex enc)\<rparr>"

text \<open>
  The part of the \<^verbatim>\<open>try\<close> block after the conversion, with the values the three
  variables have by then. It returns \<open>workingPath\<close> for the \<^verbatim>\<open>finally\<close> clause.
\<close>

definition persist_store ::
  "config \<Rightarrow> env \<Rightarrow> multer_file \<Rightarrow> nat \<Rightarrow> string \<Rightarrow> string \<Rightarrow> string \<Rightarrow> world
     \<Rightarrow> string \<times> (error + file_record) \<times> world" where
  "persist_store cfg e file albumId workingPath mimeType extension w =
     (case encryptAndStoreFromDisk cfg e workingPath (targetExtension extension) w of
        (Inl err, w1) \<Rightarrow> (workingPath, Inl err, w1)
      | (Inr enc, w1) \<Rightarrow> (workingPath, Inr (fileRecordOf albumId file mimeType enc), w1))"

text \<open>The \<^verbatim>\<open>try\<close> block of \<^verbatim>\<open>persistUploadedFile\<close>.\<close>

definition persist_try ::
  "config \<Rightarrow> env \<Rightarrow> multer_file \<Rightarrow> nat \<Rightarrow> world \<Rightarrow> string \<times> (error + file_record) \<times> world" where
  "persist_try cfg e file albumId w =
     (if shouldConvertToMp4 file then
        (case convertToMp4 cfg e (tmp_path file) w of
           (Inl err, w1) \<Rightarrow> (tmp_path file, Inl err, w1)
         | (Inr convertedPath, w1) \<Rightarrow>
             persist_store cfg e file albumId convertedPath ''video/mp4'' ''.mp4''
               (safeUnlink (tmp_path file) w1))
      else persist_store cfg e file albumId (tmp_path file) (mimetype file)
             (extname (originalname file)) w)"

definition persistUploadedFile ::
  "config \<Rightarrow> env \<Rightarrow> multer_file \<Rightarrow> nat \<Rightarrow> world \<Rightarrow> (error + file_record) \<times> world" where
  "persistUploadedFile cfg e file albumId w =
     (case persist_try cfg e file albumId w of
        (workingPath, res, w1) \<Rightarrow> (res, safeUnlink workingPath w1))"

subsection \<open>Responses and the error middleware\<close>

datatype file_meta = FileMeta string string string nat

datatype body =
    JsonError string
  | JsonPermalink string
  | JsonFiles "file_meta list"
  | Text string
  | Media string string bytes

text \<open>
  \<open>Response status body\<close>; \<open>Media content_type content_disposition bytes\<close> is a streamed
  body with its two headers. \<open>StreamFailed\<close> is a download whose pipeline rejected:
  \<^verbatim>\<open>pipeline\<close> destroys the response stream, so the connection is cut and what the error
  middleware writes afterwards reaches nobody.
\<close>

datatype response = Response nat body | StreamFailed

text \<open>The last \<^verbatim>\<open>app.use\<close>: none of the errors below is a MulterError.\<close>

definition errorMiddleware :: "error \<Rightarrow> world \<Rightarrow> response \<times> world" where
  "errorMiddleware err w =
     (case err of Error msg \<Rightarrow>
        (Response 500 (JsonError ''Internal server error''), emit (ConsoleError msg) w))"

subsection \<open>POST /upload\<close>

text \<open>
  The handler runs after multer: \<^verbatim>\<open>req.files\<close> are the files multer accepted (its file
  filter and size limit have been applied) and stored in the temporary directory.
\<close>

text \<open>
  \<^verbatim>\<open>runAsync\<close> of \<^verbatim>\<open>INSERT INTO albums (permalink) VALUES (?)\<close>: rejected when SQLite
  rejects the statement, and when the permalink is there already (the column is UNIQUE).
\<close>

definition insertAlbum :: "env \<Rightarrow> string \<Rightarrow> world \<Rightarrow> (error + nat) \<times> world" where
  "insertAlbum e plink w =
     (let w1 = (emit (DbInsertAlbum plink) w)\<lparr>run_count := Suc (run_count w)\<rparr>
      in if run_fails e (run_count w)
         then (Inl (Error ''SQLITE_ERROR: the statement was rejected''), w1)
         else if list_ex (\<lambda>a. permalink a = plink) (albums w1)
         then (Inl (Error ''SQLITE_CONSTRAINT: UNIQUE constraint failed: albums.permalink''), w1)
         else (Inr (next_album_id w1),
               w1\<lparr>albums := albums w1 @ [\<lparr>album_pk = next_album_id w1, permalink = plink\<rparr>],
                   next_album_id := Suc (next_album_id w1)\<rparr>))"

text \<open>The first loop: files are persisted one after the other; the first failure ends it.\<close>

fun persist_all ::
  "config \<Rightarrow> env \<Rightarrow> multer_file list \<Rightarrow> nat \<Rightarrow> world \<Rightarrow> (error + file_record list) \<times> world" where
  "persist_all cfg e [] albumId w = (Inr [], w)"
| "persist_all cfg e (file # rest) albumId w =
     (case persistUploadedFile cfg e file albumId w of
        (Inl err, w1) \<Rightarrow> (Inl err, w1)
      | (Inr record, w1) \<Rightarrow>
          (case persist_all cfg e rest albumId w1 of
             (Inl err, w2) \<Rightarrow> (Inl err, w2)
           | (Inr records, w2) \<Rightarrow> (Inr (record # records), w2)))"

text \<open>
  One \<^verbatim>\<open>runAsync\<close> of \<^verbatim>\<open>INSERT INTO files\<close>: the state after the statement, and whether
  it was rejected.
\<close>

definition insertFile :: "env \<Rightarrow> file_record \<Rightarrow> world \<Rightarrow> bool \<times> world" where
  "insertFile e record w =
     (let w1 = (emit (DbInsertFile (filename record)) w)\<lparr>run_count := Suc (run_count w)\<rparr>
      in if run_fails e (run_count w) then (False, w1)
         else (True, w1\<lparr>files := files w1 @ [record]\<rparr>))"

text \<open>
  The second loop: the statements are awaited one after the other; the first rejected one
  ends the loop, and the rows inserted before it stay.
\<close>

fun insertFiles :: "env \<Rightarrow> file_record list \<Rightarrow> world \<Rightarrow> error option \<times> world" where
  "insertFiles e [] w = (None, w)"
| "insertFiles e (record # records) w =
     (case insertFile e record w of
        (False, w1) \<Rightarrow> (Some (Error ''SQLITE_ERROR: the statement was rejected''), w1)
      | (True, w1) \<Rightarrow> insertFiles e records w1)"

text \<open>
  The states the second loop passes through: the state after each statement. A request
  handled between two statements sees one of them.
\<close>

fun insertFiles_states :: "env \<Rightarrow> file_record list \<Rightarrow> world \<Rightarrow> world list" where
  "insertFiles_states e [] w = []"
| "insertFiles_states e (record # records) w =
     (case insertFile e record w of
        (False, w1) \<Rightarrow> [w1]
      | (True, w1) \<Rightarrow> w1 # insertFiles_states e records w1)"

text \<open>The \<^verbatim>\<open>try\<close> and \<^verbatim>\<open>catch\<close> of the handler.\<close>

definition upload_try ::
  "config \<Rightarrow> env \<Rightarrow> multer_file list \<Rightarrow> string \<Rightarrow> world \<Rightarrow> response \<times> world" where
  "upload_try cfg e reqFiles plink w =
     (case insertAlbum e plink w of
        (Inl err, w1) \<Rightarrow> errorMiddleware err w1
      | (Inr albumId, w1) \<Rightarrow>
          (case persist_all cfg e reqFiles albumId w1 of
             (Inl err, w2) \<Rightarrow> errorMiddleware err w2
           | (Inr fileRecords, w2) \<Rightarrow>
               (case insertFiles e fileRecords w2 of
                  (Some err, w3) \<Rightarrow> errorMiddleware err w3
                | (None, w3) \<Rightarrow> (Response 200 (JsonPermalink plink), w3))))"

text \<open>The \<^verbatim>\<open>finally\<close> of the handler: \<^verbatim>\<open>safeUnlink(file.path)\<close> for every file of the request.\<close>

definition upload_finally :: "multer_file list \<Rightarrow> world \<Rightarrow> world" where
  "upload_finally reqFiles w = foldl (\<lambda>w0 file. safeUnlink (tmp_path file) w0) w reqFiles"

definition postUpload :: "config \<Rightarrow> env \<Rightarrow> multer_file list \<Rightarrow> world \<Rightarrow> response \<times> world" where
  "postUpload cfg e reqFiles w =
     (if reqFiles = [] then (Response 400 (JsonError ''No files uploaded''), w)
      else
        (case uuidv4 e w of
           (plink, w1) \<Rightarrow>
             (case upload_try cfg e reqFiles plink w1 of
                (res, w2) \<Rightarrow> (res, upload_finally reqFiles w2))))"

subsection \<open>GET /album/:permalink\<close>

definition file_meta_of :: "file_record \<Rightarrow> file_meta" where
  "file_meta_of r = FileMeta (filename r) (original_name r) (ftype r) (fsize r)"

definition getAlbum :: "string \<Rightarrow> world \<Rightarrow> response \<times> world" where
  "getAlbum plink w =
     (if \<not> validateUuid plink then (Response 400 (JsonError ''Invalid album identifier''), w)
      else
        let w1 = emit (DbSelectAlbum plink) w
        in (case find (\<lambda>a. permalink a = plink) (albums w1) of
              None \<Rightarrow> (Response 404 (JsonError ''Album not found''), w1)
            | Some a \<Rightarrow>
                let w2 = emit (DbSelectFiles (album_pk a)) w1
                in (Response 200
                      (JsonFiles (map file_meta_of
                         (filter (\<lambda>r. album_id r = album_pk a) (files w2)))),
                    w2)))"

subsection \<open>GET /uploads/:filename\<close>

text \<open>
  The cipher the handler constructs: \<^verbatim>\<open>aes-256-gcm\<close> with the IV and the registered
  authentication tag, or \<^verbatim>\<open>aes-256-cbc\<close> with the IV. The branch is \<^verbatim>\<open>if (fileRecord.tag)\<close>:
  NULL and the empty string are both falsy.
\<close>

datatype decipher = AesGcm bytes bytes | AesCbc bytes

definition selectDecipher :: "file_record \<Rightarrow> decipher" where
  "selectDecipher fileRecord =
     (let ivBuffer = from_hex (iv fileRecord)
      in (case tag fileRecord of
            None \<Rightarrow> AesCbc ivBuffer
          | Some t \<Rightarrow> if t \<noteq> [] then AesGcm ivBuffer (from_hex t) else AesCbc ivBuffer))"

text \<open>\<^verbatim>\<open>crypto.createDecipheriv\<close> and, for GCM, \<^verbatim>\<open>setAuthTag\<close>.\<close>

definition createDecipher :: "config \<Rightarrow> env \<Rightarrow> decipher \<Rightarrow> (bytes \<Rightarrow> bytes option) option" where
  "createDecipher cfg e d =
     (case d of
        AesGcm ivb tg \<Rightarrow> gcm_decipher e (encryptionKey cfg) ivb tg
      | AesCbc ivb \<Rightarrow> cbc_decipher e (encryptionKey cfg) ivb)"

definition contentType :: "file_record \<Rightarrow> string" where
  "contentType fileRecord =
     (if ftype fileRecord \<noteq> [] then ftype fileRecord else ''application/octet-stream'')"

text \<open>
  The handler from the found row on, in the order of the source: the path is resolved,
  the two headers are set (each \<^verbatim>\<open>setHeader\<close> can throw), the read stream is created,
  the decipher is constructed (it can throw), and the pipeline runs. What is thrown
  before the pipeline goes to the error middleware; a pipeline that rejects (the file is
  not there, the decipher fails) cuts the connection.
\<close>

definition streamRecord :: "config \<Rightarrow> env \<Rightarrow> file_record \<Rightarrow> world \<Rightarrow> response \<times> world" where
  "streamRecord cfg e fileRecord w =
     (case resolveStoragePath cfg (path fileRecord) of
        Inl err \<Rightarrow> errorMiddleware err w
      | Inr absolutePath \<Rightarrow>
          if \<not> validHeaderValue (contentType fileRecord)
             \<or> \<not> validHeaderValue (contentDisposition (original_name fileRecord))
          then errorMiddleware (Error ''Invalid character in header content'') w
          else
            let w1 = emit (FsRead absolutePath) w
            in (case createDecipher cfg e (selectDecipher fileRecord) of
                  None \<Rightarrow> errorMiddleware (Error ''Invalid initialization vector'') w1
                | Some dec \<Rightarrow>
                    (case fs w1 absolutePath of
                       None \<Rightarrow>
                         (StreamFailed, emit (ConsoleError ''ENOENT: no such file or directory'') w1)
                     | Some ciphertext \<Rightarrow>
                         (case dec ciphertext of
                            None \<Rightarrow>
                              (StreamFailed,
                               emit (ConsoleError ''Unsupported state or unable to authenticate data'') w1)
                          | Some plaintext \<Rightarrow>
                              (Response 200
                                 (Media (contentType fileRecord)
                                    (contentDisposition (original_name fileRecord)) plaintext),
                               w1)))))"

definition streamObject :: "config \<Rightarrow> env \<Rightarrow> string \<Rightarrow> world \<Rightarrow> response \<times> world" where
  "streamObject cfg e fname w =
     (let w1 = emit (DbSelectFile fname) w
      in (case find (\<lambda>r. filename r = fname) (files w1) of
            None \<Rightarrow> (Response 404 (Text ''File not found''), w1)
          | Some fileRecord \<Rightarrow> streamRecord cfg e fileRecord w1))"

subsection \<open>Reading the effect log\<close>

text \<open>
  Projections of a log: the paths opened for reading, the paths written, the paths handed
  to \<^verbatim>\<open>unlink\<close>, the transcoder runs (input, output) and the catalog queries.
\<close>

definition reads :: "event list \<Rightarrow> string list" where
  "reads evs = concat (map (\<lambda>ev. case ev of FsRead p \<Rightarrow> [p] | _ \<Rightarrow> []) evs)"

definition writes :: "event list \<Rightarrow> string list" where
  "writes evs = concat (map (\<lambda>ev. case ev of FsWrite p \<Rightarrow> [p] | _ \<Rightarrow> []) evs)"

definition unlinks :: "event list \<Rightarrow> string list" where
  "unlinks evs = concat (map (\<lambda>ev. case ev of FsUnlink p \<Rightarrow> [p] | _ \<Rightarrow> []) evs)"

definition ffmpeg_runs :: "event list \<Rightarrow> (string \<times> string) list" where
  "ffmpeg_runs evs = concat (map (\<lambda>ev. case ev of Ffmpeg i out \<Rightarrow> [(i, out)] | _ \<Rightarrow> []) evs)"

definition catalog_lookups :: "event list \<Rightarrow> event list" where
  "catalog_lookups evs =
     filter (\<lambda>ev. case ev of DbSelectAlbum _ \<Rightarrow> True | DbSelectFiles _ \<Rightarrow> True
                  | DbSelectFile _ \<Rightarrow> True | _ \<Rightarrow> False) evs"

subsection \<open>Notions used in the statements and proofs\<close>

text \<open>
  The invariant of the loop of \<^verbatim>\<open>extname\<close> with \<open>n\<close> characters left, and what it
  gives when the loop is left: between the last dot and the end of the name there is no
  \<^verbatim>\<open>/\<close>.
\<close>

definition ext_inv :: "string \<Rightarrow> nat \<Rightarrow> ext_state \<Rightarrow> bool" where
  "ext_inv p n st =
     ((matchedSlash st \<longleftrightarrow> end_ix st = -1)
      \<and> (end_ix st = -1 \<longrightarrow> startDot st = -1)
      \<and> (end_ix st \<noteq> -1 \<longrightarrow> int n < end_ix st \<and> (\<forall>j. n \<le> j \<and> int j < end_ix st \<longrightarrow> p ! j \<noteq> CHR ''/''))
      \<and> (startDot st \<noteq> -1 \<longrightarrow> int n \<le> startDot st \<and> startDot st < end_ix st))"

definition ext_post :: "string \<Rightarrow> ext_state \<Rightarrow> bool" where
  "ext_post p st =
     (startDot st = -1 \<or> end_ix st = -1 \<or>
      (0 \<le> startDot st \<and> (\<forall>j. startDot st \<le> int j \<and> int j < end_ix st \<longrightarrow> p ! j \<noteq> CHR ''/'')))"

text \<open>The two tables and the AUTOINCREMENT counter.\<close>

definition catalog :: "world \<Rightarrow> album list \<times> nat \<times> file_record list" where
  "catalog w = (albums w, next_album_id w, files w)"

text \<open>
  The IV the next call of \<^verbatim>\<open>encryptAndStoreFromDisk\<close> draws, and the absolute path it
  writes to for a given extension.
\<close>

definition next_iv :: "env \<Rightarrow> world \<Rightarrow> bytes" where
  "next_iv e w = map (random_source e) [random_count w ..< random_count w + 12]"

definition next_object :: "config \<Rightarrow> env \<Rightarrow> string \<Rightarrow> world \<Rightarrow> string" where
  "next_object cfg e extension w =
     posix_join (dirname cfg) (posix_join ''uploads'' (uuid_source e (uuid_count w) @ extension))"

text \<open>Steps that leave catalog, undeletable paths and the catalog queries of the log alone.\<close>

definition frame :: "world \<Rightarrow> world \<Rightarrow> bool" where
  "frame w w' = (catalog w' = catalog w \<and> undeletable w' = undeletable w
                 \<and> catalog_lookups (log w') = catalog_lookups (log w))"

subsection \<open>Concrete runs\<close>

text \<open>
  A configuration, an environment and some worlds on which the handlers are run below.
  The ciphers of \<open>example_env\<close> are stand-ins with the interface of the real ones
  (GCM returns a 16-byte tag and decrypts what it encrypted under the same key, IV and
  tag); its transcoder fails on an empty input, leaving a partial output.
\<close>

definition example_config :: config where
  "example_config =
     \<lparr>dirname = ''/app'', tmpdir = ''/tmp'', cwd = ''/app'', encryptionKey = [1, 2, 3],
      ffmpegStatic = True\<rparr>"

definition example_env :: env where
  "example_env =
     \<lparr>uuid_source = (\<lambda>n. if n = 0 then ''11111111-1111-4111-8111-111111111111''
                           else if n = 1 then ''22222222-2222-4222-8222-222222222222''
                           else if n = 2 then ''33333333-3333-4333-8333-333333333333''
                           else ''44444444-4444-4444-8444-444444444444''),
      random_source = (\<lambda>n. word_of_nat n),
      gcm_encrypt = (\<lambda>k i p. (rev p, take 16 (k @ i @ replicate 16 0))),
      gcm_decipher = (\<lambda>k i t. if length t = 16
                                then Some (\<lambda>c. if t = take 16 (k @ i @ replicate 16 0) then Some (rev c) else None)
                                else None),
      cbc_decipher = (\<lambda>k i. if length i = 16 then Some (\<lambda>c. Some (rev c)) else None),
      ffmpeg_run = (\<lambda>b. if b = [] then TranscodeFailed (Some [0]) else TranscodeOk (0 # b)),
      run_fails = (\<lambda>n. False)\<rparr>"

text \<open>The same environment, with SQLite rejecting the third statement of \<^verbatim>\<open>runAsync\<close>.\<close>

definition failing_env :: env where
  "failing_env = example_env\<lparr>run_fails := (\<lambda>n. n = 2)\<rparr>"

definition empty_world :: world where
  "empty_world =
     \<lparr>albums = [], next_album_id = 1, files = [], fs = Map.empty, undeletable = {},
      uuid_count = 0, random_count = 0, run_count = 0, log = []\<rparr>"

text \<open>A catalog row whose stored path leaves the storage root.\<close>

definition traversal_record :: file_record where
  "traversal_record =
     \<lparr>album_id = 1, filename = ''evil'', original_name = ''passwd'', path = ''../../etc/passwd'',
      ftype = ''text/plain'', fsize = 1, iv = ''000102030405060708090a0b'', tag = None\<rparr>"

definition traversal_world :: world where
  "traversal_world = empty_world\<lparr>files := [traversal_record], fs := [''/etc/passwd'' \<mapsto> [7]]\<rparr>"

text \<open>Two uploaded files in the temporary directory, and the records they are stored as.\<close>

definition photo_file :: multer_file where
  "photo_file = \<lparr>originalname = ''cat.png'', mimetype = ''image/png'', tmp_path = ''/tmp/1-upload.png''\<rparr>"

definition movie_file :: multer_file where
  "movie_file = \<lparr>originalname = ''clip.MOV'', mimetype = ''video/quicktime'', tmp_path = ''/tmp/2-upload.MOV''\<rparr>"


definition upload_world :: world where
  "upload_world = empty_world\<lparr>fs := [''/tmp/1-upload.png'' \<mapsto> [10, 20, 30], ''/tmp/2-upload.MOV'' \<mapsto> [5, 6]]\<rparr>"

definition photo_record :: file_record where
  "photo_record =
     \<lparr>album_id = 1, filename = ''11111111-1111-4111-8111-111111111111.png'',
      original_name = ''cat.png'',
      path = ''uploads/11111111-1111-4111-8111-111111111111.png'',
      ftype = ''image/png'', fsize = 3, iv = ''000102030405060708090a0b'',
      tag = Some ''010203000102030405060708090a0b00''\<rparr>"


definition movie_record :: file_record where
  "movie_record =
     \<lparr>album_id = 1, filename = ''22222222-2222-4222-8222-222222222222.mp4'',
      original_name = ''clip.MOV'',
      path = ''uploads/22222222-2222-4222-8222-222222222222.mp4'',
      ftype = ''video/mp4'', fsize = 3, iv = ''000102030405060708090a0b'',
      tag = Some ''010203000102030405060708090a0b00''\<rparr>"

text \<open>
  AUTOINCREMENT: every album id in use, in either table, is below the next id to be given.
\<close>

definition db_ok :: "world \<Rightarrow> bool" where
  "db_ok w = ((\<forall>a \<in> set (albums w). album_pk a < next_album_id w)
             \<and> (\<forall>r \<in> set (files w). album_id r < next_album_id w))"

text \<open>
  A world in which the uploaded movie is empty, so that the transcoder fails.
\<close>

definition broken_world :: world where
  "broken_world = empty_world\<lparr>fs := [''/tmp/2-upload.MOV'' \<mapsto> []]\<rparr>"


section \<open>Properties\<close>

subsection \<open>sanitizeFilename\<close>

lemma sanitizeFilename_safe: "set (sanitizeFilename s) \<inter> unsafe_chars = {}"
  by (auto simp: sanitizeFilename_def unsafe_chars_def)

text \<open>
  C10. For every input string, sanitizeFilename returns a string of the same length
  without double quote, backslash, newline or carriage return: each such character is
  replaced by an underscore and every other character is kept. Hence the
  Content-Disposition value is the fixed prefix, the sanitized name and one closing
  quote, and the name placed between the quotes contains none of the four characters.
\<close>

theorem C10_sanitizeFilename:
  "set (sanitizeFilename s) \<inter> unsafe_chars = {}
   \<and> length (sanitizeFilename s) = length s
   \<and> (\<forall>i < length s. sanitizeFilename s ! i = (if s ! i \<in> unsafe_chars then CHR ''_'' else s ! i))
   \<and> (\<exists>body. contentDisposition s = ''inline; filename='' @ [CHR 0x22] @ body @ [CHR 0x22]
         \<and> body = sanitizeFilename s \<and> set body \<inter> unsafe_chars = {})"
proof -
  have a: "set (sanitizeFilename s) \<inter> unsafe_chars = {}"
    by (rule sanitizeFilename_safe)
  have b: "length (sanitizeFilename s) = length s"
    by (simp add: sanitizeFilename_def)
  have c: "\<forall>i < length s. sanitizeFilename s ! i = (if s ! i \<in> unsafe_chars then CHR ''_'' else s ! i)"
    by (simp add: sanitizeFilename_def)
  from a b c show ?thesis
    by (simp add: contentDisposition_def)
qed

theorem C10_sanitizeFilename_witness:
  "sanitizeFilename [CHR ''a'', CHR 0x22, CHR 0x5C, CHR 0x0A, CHR 0x0D, CHR ''b''] = ''a____b''
   \<and> set (sanitizeFilename [CHR ''a'', CHR 0x22, CHR 0x5C, CHR 0x0A, CHR 0x0D, CHR ''b'']) \<inter> unsafe_chars = {}"
  using C10_sanitizeFilename [of "[CHR ''a'', CHR 0x22, CHR 0x5C, CHR 0x0A, CHR 0x0D, CHR ''b'']"]
  by (simp add: sanitizeFilename_def unsafe_chars_def)

subsection \<open>Hexadecimal encoding\<close>

lemma from_hex_length: "list_all is_hex s \<Longrightarrow> length (from_hex s) = length s div 2"
  by (induction s rule: from_hex.induct) (auto simp: is_hex_def split: option.splits)




subsection \<open>loadEncryptionKey\<close>

text \<open>
  C5. Key loading accepts exactly two forms: a string of 64 hexadecimal digits, for which
  it returns the 32 bytes the digits spell, and a string that the base64 decoder turns
  into exactly 32 bytes, for which it returns those bytes. Every other value, a missing
  one included, is a configuration error. The decoder is Node's, a parameter here; of it
  only the fact that the empty string decodes to no bytes is used.
\<close>

theorem C5_loadEncryptionKey:
  "b64 [] = [] \<Longrightarrow>
   (\<forall>k. raw = Some k \<and> hex64 k \<longrightarrow>
        loadEncryptionKey b64 raw = Inr (from_hex k) \<and> length (from_hex k) = 32)
   \<and> (\<forall>k. raw = Some k \<and> \<not> hex64 k \<and> length (b64 k) = 32 \<longrightarrow>
        loadEncryptionKey b64 raw = Inr (b64 k))
   \<and> ((\<nexists>k. raw = Some k \<and> (hex64 k \<or> length (b64 k) = 32)) \<longrightarrow>
        (\<exists>msg. loadEncryptionKey b64 raw = Inl (Error msg)))
   \<and> (\<forall>key. loadEncryptionKey b64 raw = Inr key \<longrightarrow> length key = 32)"
  by (cases raw) (auto simp: loadEncryptionKey_def hex64_def from_hex_length)

theorem C5_loadEncryptionKey_witness:
  "loadEncryptionKey (\<lambda>s. replicate (length s) 0)
      (Some ''000102030405060708090a0b0c0d0e0f101112131415161718191A1B1C1D1E1F'')
     = Inr [0,1,2,3,4,5,6,7,8,9,10,11,12,13,14,15,16,17,18,19,20,21,22,23,24,25,26,27,28,29,30,31]
   \<and> loadEncryptionKey (\<lambda>s. replicate (length s) 0) (Some ''abcdefghijklmnopqrstuvwxyz012345'')
     = Inr (replicate 32 0)
   \<and> (\<exists>msg. loadEncryptionKey (\<lambda>s. replicate (length s) 0) (Some ''too short'') = Inl (Error msg))
   \<and> (\<exists>msg. loadEncryptionKey (\<lambda>s. replicate (length s) 0) None = Inl (Error msg))"
  using C5_loadEncryptionKey [of "\<lambda>s. replicate (length s) 0"
          "Some ''000102030405060708090a0b0c0d0e0f101112131415161718191A1B1C1D1E1F''"]
        C5_loadEncryptionKey [of "\<lambda>s. replicate (length s) 0" "Some ''abcdefghijklmnopqrstuvwxyz012345''"]
        C5_loadEncryptionKey [of "\<lambda>s. replicate (length s) 0" "Some ''too short''"]
        C5_loadEncryptionKey [of "\<lambda>s. replicate (length s) 0" None]
  by (simp add: hex64_def is_hex_def unhex_def)

subsection \<open>Paths\<close>

lemma split_path_not_Nil: "split_path s \<noteq> []"
  by (induction s) (auto split: list.splits)

lemma split_path_no_slash: "CHR ''/'' \<notin> set s \<Longrightarrow> split_path s = [s]"
  by (induction s) auto

lemma split_path_append:
  "split_path (a @ CHR ''/'' # b) = split_path a @ split_path b"
proof (induction a)
  case Nil
  show ?case by simp
next
  case (Cons c a)
  show ?case
  proof (cases "c = CHR ''/''")
    case True
    with Cons show ?thesis by simp
  next
    case False
    obtain s ss where s: "split_path a = s # ss"
      using split_path_not_Nil [of a] by (cases "split_path a") auto
    with Cons False show ?thesis by simp
  qed
qed

lemma split_path_join:
  "\<forall>s \<in> set S. CHR ''/'' \<notin> set s \<Longrightarrow> S \<noteq> [] \<Longrightarrow> split_path (join_segs S) = S"
proof (induction S rule: join_segs.induct)
  case 1
  then show ?case by simp
next
  case (2 s)
  then show ?case by (simp add: split_path_no_slash)
next
  case (3 s t ss)
  then show ?case by (simp add: split_path_append split_path_no_slash)
qed

lemma norm_step_clean: "clean_seg s \<Longrightarrow> norm_step al res s = res @ [s]"
  by (simp add: norm_step_def clean_seg_def)

lemma norm_step_empty: "norm_step al res [] = res"
  by (simp add: norm_step_def)

lemma foldl_norm_clean:
  "\<forall>s \<in> set S. clean_seg s \<Longrightarrow> foldl (norm_step al) acc S = acc @ S"
  by (induction S arbitrary: acc) (auto simp: norm_step_clean)

lemma normalize_segs_abs:
  assumes "\<forall>s \<in> set S. clean_seg s"
  shows "normalize_segs al (CHR ''/'' # join_segs S @ CHR ''/'' # r)
         = foldl (norm_step al) S (split_path r)"
proof (cases "S = []")
  case True
  then show ?thesis by (simp add: normalize_segs_def norm_step_empty)
next
  case False
  with assms have "split_path (join_segs S) = S"
    by (simp add: split_path_join clean_seg_def)
  then show ?thesis using assms
    by (simp add: normalize_segs_def split_path_append norm_step_empty foldl_norm_clean)
qed

lemma join_segs_eq_Nil: "\<forall>s \<in> set S. s \<noteq> [] \<Longrightarrow> join_segs S = [] \<longleftrightarrow> S = []"
  by (induction S rule: join_segs.induct) auto

lemma path_segs_abs:
  assumes "\<forall>s \<in> set S. clean_seg s"
  shows "path_segs (CHR ''/'' # join_segs S) = S"
proof (cases "S = []")
  case True
  then show ?thesis by (simp add: path_segs_def)
next
  case False
  with assms have "split_path (join_segs S) = S"
    by (simp add: split_path_join clean_seg_def)
  moreover have "filter (\<lambda>s. s \<noteq> []) S = S"
    using assms by (simp add: clean_seg_def filter_id_conv)
  ultimately show ?thesis by (simp add: path_segs_def)
qed

lemma posix_resolve_abs:
  assumes "\<forall>s \<in> set S. clean_seg s"
  shows "posix_resolve c [CHR ''/'' # join_segs S] = CHR ''/'' # join_segs S"
proof -
  have "normalize_segs False (CHR ''/'' # join_segs S @ CHR ''/'' # []) = S"
    using normalize_segs_abs [OF assms, of False "[]"] by (simp add: norm_step_empty)
  then show ?thesis
    by (simp add: posix_resolve_def normalizeString_def)
qed

lemma common_prefix_append: "common_prefix xs (xs @ ys) = length xs"
  by (induction xs) auto

lemma common_prefix_le: "common_prefix xs ys \<le> length xs"
  by (induction xs ys rule: common_prefix.induct) auto

lemma common_prefix_take: "take (common_prefix xs ys) ys = take (common_prefix xs ys) xs"
  by (induction xs ys rule: common_prefix.induct) auto

lemma join_segs_last:
  "R \<noteq> [] \<Longrightarrow> \<exists>pre. join_segs R = pre @ last R"
  by (induction R rule: join_segs.induct) auto

lemma last_join_segs:
  assumes "R \<noteq> []" "last R \<noteq> []"
  shows "last (join_segs R) = last (last R)"
proof -
  obtain pre where "join_segs R = pre @ last R"
    using join_segs_last [OF assms(1)] by blast
  with assms(2) show ?thesis by simp
qed

lemma hd_join_segs: "R \<noteq> [] \<Longrightarrow> hd R \<noteq> [] \<Longrightarrow> hd (join_segs R) = hd (hd R)"
  by (induction R rule: join_segs.induct) auto

lemma join_segs_not_Nil: "R \<noteq> [] \<Longrightarrow> hd R \<noteq> [] \<Longrightarrow> join_segs R \<noteq> []"
  by (induction R rule: join_segs.induct) auto

lemma clean_last_not_slash:
  assumes "\<forall>s \<in> set R. clean_seg s" "R \<noteq> []"
  shows "last (join_segs R) \<noteq> CHR ''/''"
proof -
  have l: "last R \<in> set R" using assms(2) by simp
  then have c: "clean_seg (last R)" using assms(1) by blast
  then have "last R \<noteq> []" by (simp add: clean_seg_def)
  then have "last (join_segs R) = last (last R)"
    using assms(2) by (simp add: last_join_segs)
  moreover have "last (last R) \<noteq> CHR ''/''"
    using \<open>last R \<noteq> []\<close> c by (metis clean_seg_def last_in_set)
  ultimately show ?thesis by simp
qed

lemma clean_hd_not_slash:
  assumes "\<forall>s \<in> set R. clean_seg s" "R \<noteq> []"
  shows "join_segs R \<noteq> [] \<and> hd (join_segs R) \<noteq> CHR ''/''"
proof -
  have "hd R \<in> set R" using assms(2) by simp
  then have c: "clean_seg (hd R)" using assms(1) by blast
  then have n: "hd R \<noteq> []" by (simp add: clean_seg_def)
  with c have "hd (hd R) \<noteq> CHR ''/''" by (metis clean_seg_def hd_in_set)
  with n assms(2) show ?thesis by (simp add: hd_join_segs join_segs_not_Nil)
qed

lemma posix_join_abs:
  assumes D: "\<forall>s \<in> set D. clean_seg s" and R: "\<forall>s \<in> set R. clean_seg s" and ne: "R \<noteq> []"
  shows "posix_join (CHR ''/'' # join_segs D) (join_segs R) = CHR ''/'' # join_segs (D @ R)"
proof -
  let ?b = "join_segs R"
  let ?j = "CHR ''/'' # join_segs D @ CHR ''/'' # ?b"
  have b: "?b \<noteq> []" "hd ?b \<noteq> CHR ''/''" using clean_hd_not_slash [OF R ne] by auto
  have lb: "last ?b \<noteq> CHR ''/''" by (rule clean_last_not_slash [OF R ne])
  have sp: "split_path ?b = R" using R ne by (simp add: split_path_join clean_seg_def)
  have n: "normalize_segs False ?j = D @ R"
    using normalize_segs_abs [OF D, of False ?b] R by (simp add: sp foldl_norm_clean)
  have q: "join_segs (D @ R) \<noteq> []"
    using D R ne by (subst join_segs_eq_Nil) (auto simp: clean_seg_def)
  have "posix_join (CHR ''/'' # join_segs D) ?b = posix_normalize ?j"
    using b by (simp add: posix_join_def)
  also have "\<dots> = CHR ''/'' # join_segs (D @ R)"
    using n q lb b by (simp add: posix_normalize_def normalizeString_def)
  finally show ?thesis .
qed

lemma posix_join_rel:
  assumes "clean_seg a" "clean_seg b"
  shows "posix_join a b = a @ CHR ''/'' # b"
proof -
  from assms have ne: "a \<noteq> []" "b \<noteq> []" and ns: "CHR ''/'' \<notin> set a" "CHR ''/'' \<notin> set b"
    by (auto simp: clean_seg_def)
  have h: "hd (a @ CHR ''/'' # b) \<noteq> CHR ''/''" using ne ns by (cases a) auto
  have l: "last (a @ CHR ''/'' # b) \<noteq> CHR ''/''" using ne ns
    by (metis last_appendR last_in_set list.distinct(1) last_ConsR)
  have n: "normalize_segs True (a @ CHR ''/'' # b) = [a, b]"
    using assms ns by (simp add: normalize_segs_def split_path_append split_path_no_slash norm_step_clean)
  show ?thesis using ne h l n
    by (simp add: posix_join_def posix_normalize_def normalizeString_def)
qed

lemma posix_resolve_under:
  assumes D: "\<forall>s \<in> set D. clean_seg s" and R: "\<forall>s \<in> set R. clean_seg s" and ne: "R \<noteq> []"
  shows "posix_resolve c [CHR ''/'' # join_segs D, join_segs R] = CHR ''/'' # join_segs (D @ R)"
proof -
  let ?b = "join_segs R"
  have b: "?b \<noteq> []" "hd ?b \<noteq> CHR ''/''" using clean_hd_not_slash [OF R ne] by auto
  have sp: "split_path ?b = R" using R ne by (simp add: split_path_join clean_seg_def)
  have "split_path (?b @ CHR ''/'' # []) = R @ [[]]"
    by (simp only: split_path_append sp) simp
  then have n: "normalize_segs False (CHR ''/'' # join_segs D @ CHR ''/'' # (?b @ CHR ''/'' # [])) = D @ R"
    using normalize_segs_abs [OF D, of False "?b @ CHR ''/'' # []"] R
    by (simp add: foldl_norm_clean norm_step_empty)
  show ?thesis using b n
    by (simp add: posix_resolve_def normalizeString_def)
qed

lemma abs_path_inj:
  assumes "\<forall>s \<in> set S. clean_seg s" "\<forall>s \<in> set T. clean_seg s"
  shows "(CHR ''/'' # join_segs S = CHR ''/'' # join_segs T) = (S = T)"
  using path_segs_abs [OF assms(1)] path_segs_abs [OF assms(2)] by metis

lemma posix_relative_abs:
  assumes S: "\<forall>s \<in> set S. clean_seg s" and T: "\<forall>s \<in> set T. clean_seg s"
  shows "posix_relative c (CHR ''/'' # join_segs S) (CHR ''/'' # join_segs T)
         = (if S = T then []
            else join_segs (replicate (length S - common_prefix S T) ''..'' @ drop (common_prefix S T) T))"
  using abs_path_inj [OF S T]
  by (simp add: posix_relative_def posix_resolve_abs [OF S] posix_resolve_abs [OF T]
        path_segs_abs [OF S] path_segs_abs [OF T] Let_def)

lemma startsWith_dotdot_join:
  "startsWith (join_segs (''..'' # rest)) ''..''"
  by (cases rest) (simp_all add: startsWith_def)

lemma resolveStoragePath_contained:
  assumes "resolveStoragePath cfg storedPath = Inr absolute"
  shows "contained cfg absolute"
proof -
  let ?rel = "posix_relative (cwd cfg) (uploadsDir cfg) absolute"
  let ?fs = "path_segs (posix_resolve (cwd cfg) [uploadsDir cfg])"
  let ?ts = "path_segs (posix_resolve (cwd cfg) [absolute])"
  let ?n = "common_prefix ?fs ?ts"
  from assms have ok: "\<not> startsWith ?rel ''..''"
    by (auto simp: resolveStoragePath_def Let_def split: if_splits)
  show ?thesis
  proof (cases "uploadsDir cfg = absolute \<or> posix_resolve (cwd cfg) [uploadsDir cfg] = posix_resolve (cwd cfg) [absolute]")
    case True
    then show ?thesis by (auto simp: contained_def)
  next
    case False
    then have rel: "?rel = join_segs (replicate (length ?fs - ?n) ''..'' @ drop ?n ?ts)"
      by (simp add: posix_relative_def Let_def)
    have "length ?fs - ?n = 0"
    proof (rule ccontr)
      assume "length ?fs - ?n \<noteq> 0"
      then obtain k where k: "length ?fs - ?n = Suc k" by (cases "length ?fs - ?n") auto
      have "startsWith ?rel ''..''"
        unfolding rel k by (simp only: replicate_Suc append_Cons startsWith_dotdot_join)
      with ok show False by simp
    qed
    with common_prefix_le [of ?fs ?ts] have n: "?n = length ?fs" by simp
    from common_prefix_take [of ?fs ?ts] n have "take (length ?fs) ?ts = ?fs" by simp
    then show ?thesis by (simp add: contained_def Let_def)
  qed
qed

lemma uploadsDir_abs:
  assumes D: "\<forall>s \<in> set D. clean_seg s" and d: "dirname cfg = CHR ''/'' # join_segs D"
  shows "uploadsDir cfg = CHR ''/'' # join_segs (D @ [''uploads''])"
proof -
  have "posix_join (CHR ''/'' # join_segs D) (join_segs [''uploads'']) = CHR ''/'' # join_segs (D @ [''uploads''])"
    by (rule posix_join_abs [OF D]) (simp_all add: clean_seg_def)
  then show ?thesis by (simp add: uploadsDir_def d)
qed

lemma resolve_written:
  assumes D: "\<forall>s \<in> set D. clean_seg s" and d: "dirname cfg = CHR ''/'' # join_segs D"
    and f: "clean_seg fname" and nd: "\<not> startsWith fname ''..''"
  shows "posix_join (dirname cfg) (posix_join ''uploads'' fname) = CHR ''/'' # join_segs (D @ [''uploads'', fname])"
    and "posix_relative (cwd cfg) (dirname cfg) (CHR ''/'' # join_segs (D @ [''uploads'', fname]))
         = ''uploads/'' @ fname"
    and "resolveStoragePath cfg (''uploads/'' @ fname) = Inr (CHR ''/'' # join_segs (D @ [''uploads'', fname]))"
proof -
  have u: "clean_seg ''uploads''" by (simp add: clean_seg_def)
  have R: "\<forall>s \<in> set [''uploads'', fname]. clean_seg s" using f u by simp
  have j1: "posix_join ''uploads'' fname = join_segs [''uploads'', fname]"
    using posix_join_rel [OF u f] by simp
  show a: "posix_join (dirname cfg) (posix_join ''uploads'' fname) = CHR ''/'' # join_segs (D @ [''uploads'', fname])"
    unfolding j1 d by (rule posix_join_abs [OF D R]) simp
  have DR: "\<forall>s \<in> set (D @ [''uploads'', fname]). clean_seg s" using D R by auto
  have DU: "\<forall>s \<in> set (D @ [''uploads'']). clean_seg s" using D u by auto
  show b: "posix_relative (cwd cfg) (dirname cfg) (CHR ''/'' # join_segs (D @ [''uploads'', fname]))
         = ''uploads/'' @ fname"
    unfolding d by (simp add: posix_relative_abs [OF D DR] common_prefix_append)
  have na: "\<not> isAbsolute (''uploads/'' @ fname)" by (simp add: isAbsolute_def)
  have res: "posix_resolve (cwd cfg) [dirname cfg, ''uploads/'' @ fname] = CHR ''/'' # join_segs (D @ [''uploads'', fname])"
    using posix_resolve_under [OF D R, of "cwd cfg"] by (simp add: d)
  have cp: "common_prefix (D @ [''uploads'']) (D @ [''uploads'', fname]) = Suc (length D)"
    using common_prefix_append [of "D @ [''uploads'']" "[fname]"] by simp
  have rel: "posix_relative (cwd cfg) (uploadsDir cfg) (CHR ''/'' # join_segs (D @ [''uploads'', fname])) = fname"
    unfolding uploadsDir_abs [OF D d]
    by (simp add: posix_relative_abs [OF DU DR] cp)
  have nabs: "\<not> isAbsolute fname" using f by (cases fname) (auto simp: isAbsolute_def clean_seg_def)
  show "resolveStoragePath cfg (''uploads/'' @ fname) = Inr (CHR ''/'' # join_segs (D @ [''uploads'', fname]))"
    unfolding resolveStoragePath_def using na res rel nd nabs by (simp add: Let_def)
qed

subsection \<open>Stored names and extensions\<close>

lemma in_class_plain: "in_class k c \<Longrightarrow> c \<noteq> CHR ''/'' \<and> c \<noteq> CHR ''.''"
  by (cases k) (auto simp: is_hex_def unhex_def split: if_splits)

lemma validateUuid_chars:
  assumes "validateUuid u"
  shows "length u = 36" and "\<forall>c \<in> set u. c \<noteq> CHR ''/'' \<and> c \<noteq> CHR ''.''"
proof -
  from assms have l: "list_all2 in_class uuid_pattern u" by (simp add: validateUuid_def)
  then have "length uuid_pattern = length u" by (rule list_all2_lengthD)
  then show "length u = 36" by (simp add: uuid_pattern_def)
  show "\<forall>c \<in> set u. c \<noteq> CHR ''/'' \<and> c \<noteq> CHR ''.''"
  proof
    fix c assume "c \<in> set u"
    then obtain i where i: "i < length u" "u ! i = c" by (auto simp: in_set_conv_nth)
    with l have "in_class (uuid_pattern ! i) c" by (auto simp: list_all2_conv_all_nth)
    then show "c \<noteq> CHR ''/'' \<and> c \<noteq> CHR ''.''" by (rule in_class_plain)
  qed
qed

lemma uuid_filename_clean:
  assumes u: "validateUuid u" and e: "CHR ''/'' \<notin> set ext"
  shows "clean_seg (u @ ext)" and "\<not> startsWith (u @ ext) ''..''"
proof -
  from validateUuid_chars [OF u] obtain c cs where cs: "u = c # cs"
    by (cases u) auto
  with validateUuid_chars(2) [OF u] have c: "c \<noteq> CHR ''.''" "c \<noteq> CHR ''/''" by auto
  show "clean_seg (u @ ext)"
    using validateUuid_chars(2) [OF u] e c by (auto simp: clean_seg_def cs)
  show "\<not> startsWith (u @ ext) ''..''"
    using c by (simp add: startsWith_def cs)
qed

lemma slice_set:
  assumes "x \<in> set (slice p a b)"
  shows "\<exists>j. a \<le> j \<and> j < b \<and> j < length p \<and> x = p ! j"
proof -
  from assms obtain i where i: "i < length (take (b - a) (drop a p))" "take (b - a) (drop a p) ! i = x"
    by (auto simp: slice_def in_set_conv_nth)
  then have "i < b - a" "a + i < length p" by auto
  with i have "x = p ! (a + i)" by simp
  with \<open>i < b - a\<close> \<open>a + i < length p\<close> show ?thesis
    by (intro exI [of _ "a + i"]) auto
qed

lemma ext_inv_post: "ext_inv p n st \<Longrightarrow> ext_post p st"
  by (auto simp: ext_inv_def ext_post_def)

lemma ext_inv_end:
  assumes "ext_inv p (Suc i) st" "p ! i \<noteq> CHR ''/''"
  shows "ext_inv p i (if end_ix st = -1 then st\<lparr>end_ix := int i + 1, matchedSlash := False\<rparr> else st)"
proof (cases "end_ix st = -1")
  case True
  with assms show ?thesis by (auto simp: ext_inv_def)
next
  case False
  have "\<forall>j. i \<le> j \<and> int j < end_ix st \<longrightarrow> p ! j \<noteq> CHR ''/''"
  proof (intro allI impI)
    fix j assume j: "i \<le> j \<and> int j < end_ix st"
    show "p ! j \<noteq> CHR ''/''"
    proof (cases "j = i")
      case True
      with assms(2) show ?thesis by simp
    next
      case False
      with j have "Suc i \<le> j \<and> int j < end_ix st" by auto
      with assms(1) \<open>end_ix st \<noteq> -1\<close> show ?thesis by (simp add: ext_inv_def)
    qed
  qed
  moreover from assms(1) False have "int i < end_ix st" "matchedSlash st \<longleftrightarrow> end_ix st = -1"
    "startDot st \<noteq> -1 \<longrightarrow> int i \<le> startDot st \<and> startDot st < end_ix st"
    by (auto simp: ext_inv_def)
  ultimately show ?thesis using False by (simp add: ext_inv_def)
qed

lemma ext_inv_dot:
  assumes "ext_inv p i st" "end_ix st \<noteq> -1"
  shows "ext_inv p i (st\<lparr>startDot := int i\<rparr>)"
    and "ext_inv p i (st\<lparr>preDotState := v\<rparr>)"
  using assms by (simp_all add: ext_inv_def)

lemma ext_step_inv:
  assumes "ext_inv p (Suc i) st" "p ! i \<noteq> CHR ''/''"
  shows "ext_inv p i (ext_step (p ! i) i st)"
proof -
  define st1 where "st1 = (if end_ix st = -1 then st\<lparr>end_ix := int i + 1, matchedSlash := False\<rparr> else st)"
  have 1: "ext_inv p i st1" unfolding st1_def by (rule ext_inv_end [OF assms])
  have 2: "end_ix st1 \<noteq> -1" by (simp add: st1_def)
  have eq: "ext_step (p ! i) i st =
     (if p ! i = CHR ''.'' then
           (if startDot st1 = -1 then st1\<lparr>startDot := int i\<rparr>
            else if preDotState st1 \<noteq> 1 then st1\<lparr>preDotState := 1\<rparr>
            else st1)
         else if startDot st1 \<noteq> -1 then st1\<lparr>preDotState := -1\<rparr>
         else st1)"
    by (simp only: ext_step_def Let_def st1_def)
  note d = ext_inv_dot [OF 1 2]
  show ?thesis
  proof (cases "p ! i = CHR ''.''")
    case True
    then show ?thesis unfolding eq using 1 d(1) d(2) [of 1] by (cases "startDot st1 = -1"; cases "preDotState st1 \<noteq> 1"; simp)
  next
    case False
    then show ?thesis unfolding eq using 1 d(2) [of "-1"] by (cases "startDot st1 \<noteq> -1"; simp)
  qed
qed

lemma extname_loop_post:
  "ext_inv p n st \<Longrightarrow> ext_post p (extname_loop p n st)"
proof (induction n arbitrary: st)
  case 0
  then show ?case by (simp add: ext_inv_post)
next
  case (Suc i)
  show ?case
  proof (cases "p ! i = CHR ''/''")
    case False
    then show ?thesis using Suc.IH [OF ext_step_inv [OF Suc.prems False]] by simp
  next
    case True
    show ?thesis
    proof (cases "matchedSlash st")
      case False
      have "ext_post p st" using Suc.prems by (rule ext_inv_post)
      then have "ext_post p (st\<lparr>startPart := int i + 1\<rparr>)" by (simp add: ext_post_def)
      with True False show ?thesis by simp
    next
      case m: True
      with Suc.prems have "ext_inv p i st" by (auto simp: ext_inv_def)
      from Suc.IH [OF this] True m show ?thesis by simp
    qed
  qed
qed

lemma extname_no_slash: "CHR ''/'' \<notin> set (extname p)"
proof
  assume a: "CHR ''/'' \<in> set (extname p)"
  let ?st = "extname_loop p (length p)
               \<lparr>startDot = -1, startPart = 0, end_ix = -1, matchedSlash = True, preDotState = 0\<rparr>"
  have "ext_inv p (length p) \<lparr>startDot = -1, startPart = 0, end_ix = -1, matchedSlash = True, preDotState = 0\<rparr>"
    by (simp add: ext_inv_def)
  then have post: "ext_post p ?st" by (rule extname_loop_post)
  from a have ne: "extname p \<noteq> []" by auto
  then have e: "extname p = slice p (nat (startDot ?st)) (nat (end_ix ?st))"
    and sd: "startDot ?st \<noteq> -1" "end_ix ?st \<noteq> -1"
    by (auto simp: extname_def Let_def split: if_splits)
  from a e obtain j where j: "nat (startDot ?st) \<le> j" "j < nat (end_ix ?st)" "p ! j = CHR ''/''"
    using slice_set [of "CHR ''/''" p "nat (startDot ?st)" "nat (end_ix ?st)"] by auto
  from post sd have "0 \<le> startDot ?st" and "\<forall>j. startDot ?st \<le> int j \<and> int j < end_ix ?st \<longrightarrow> p ! j \<noteq> CHR ''/''"
    by (auto simp: ext_post_def)
  with j show False by (auto simp: nat_le_iff)
qed

lemma targetExtension_no_slash: "CHR ''/'' \<notin> set e \<Longrightarrow> CHR ''/'' \<notin> set (targetExtension e)"
  by (simp add: targetExtension_def)

subsection \<open>What each step leaves unchanged\<close>

lemma reads_append [simp]: "reads (a @ b) = reads a @ reads b"
  by (simp add: reads_def)

lemma writes_append [simp]: "writes (a @ b) = writes a @ writes b"
  by (simp add: writes_def)

lemma unlinks_append [simp]: "unlinks (a @ b) = unlinks a @ unlinks b"
  by (simp add: unlinks_def)

lemma ffmpeg_runs_append [simp]: "ffmpeg_runs (a @ b) = ffmpeg_runs a @ ffmpeg_runs b"
  by (simp add: ffmpeg_runs_def)

lemma catalog_lookups_append [simp]: "catalog_lookups (a @ b) = catalog_lookups a @ catalog_lookups b"
  by (simp add: catalog_lookups_def)

lemma emit_fields [simp]:
  "catalog (emit ev w) = catalog w" "fs (emit ev w) = fs w" "undeletable (emit ev w) = undeletable w"
  "uuid_count (emit ev w) = uuid_count w" "random_count (emit ev w) = random_count w"
  "log (emit ev w) = log w @ [ev]"
  by (simp_all add: emit_def catalog_def)

lemma safeUnlink_frame [simp]:
  "catalog (safeUnlink p w) = catalog w" "undeletable (safeUnlink p w) = undeletable w"
  "uuid_count (safeUnlink p w) = uuid_count w" "random_count (safeUnlink p w) = random_count w"
  by (simp_all add: safeUnlink_def unlink_def catalog_def emit_def)


lemma safeUnlink_log:
  "reads (log (safeUnlink p w)) = reads (log w)"
  "writes (log (safeUnlink p w)) = writes (log w)"
  "ffmpeg_runs (log (safeUnlink p w)) = ffmpeg_runs (log w)"
  "catalog_lookups (log (safeUnlink p w)) = catalog_lookups (log w)"
  "unlinks (log (safeUnlink p w)) = unlinks (log w) @ (if p = [] then [] else [p])"
  by (simp_all add: safeUnlink_def unlink_def emit_def reads_def writes_def ffmpeg_runs_def
        catalog_lookups_def unlinks_def)

lemma convertToMp4_frame:
  assumes "convertToMp4 cfg e i w = (r, w')"
  shows "catalog w' = catalog w" "undeletable w' = undeletable w" "random_count w' = random_count w"
    "reads (log w') = reads (log w)" "writes (log w') = writes (log w)"
    "unlinks (log w') = unlinks (log w)" "catalog_lookups (log w') = catalog_lookups (log w)"
  using assms
  by (auto simp: convertToMp4_def uuidv4_def catalog_def emit_def Let_def reads_def writes_def
        unlinks_def catalog_lookups_def
      split: if_splits option.splits transcode_outcome.splits)

lemma encrypt_frame:
  assumes "encryptAndStoreFromDisk cfg e i x w = (r, w')"
  shows "catalog w' = catalog w" "undeletable w' = undeletable w"
    "uuid_count w' = Suc (uuid_count w)" "random_count w' = random_count w + 12"
    "ffmpeg_runs (log w') = ffmpeg_runs (log w)" "unlinks (log w') = unlinks (log w)"
    "catalog_lookups (log w') = catalog_lookups (log w)"
  using assms
  by (auto simp: encryptAndStoreFromDisk_def uuidv4_def randomBytes_def catalog_def emit_def Let_def
        ffmpeg_runs_def unlinks_def catalog_lookups_def
      split: option.splits prod.splits)


lemma encrypt_Inr:
  assumes "encryptAndStoreFromDisk cfg e i x w = (Inr enc, w')"
  shows "\<exists>content ct tg.
           fs w i = Some content
         \<and> gcm_encrypt e (encryptionKey cfg) (next_iv e w) content = (ct, tg)
         \<and> enc = \<lparr>enc_filename = uuid_source e (uuid_count w) @ x,
                   relativePath = posix_relative (cwd cfg) (dirname cfg) (next_object cfg e x w),
                   enc_size = length ct, ivHex = to_hex (next_iv e w), tagHex = to_hex tg\<rparr>
         \<and> fs w' = (fs w)(next_object cfg e x w \<mapsto> ct)
         \<and> log w' = log w @ [FsRead i, FsWrite (next_object cfg e x w)]"
  using assms
  by (auto simp: encryptAndStoreFromDisk_def uuidv4_def randomBytes_def emit_def Let_def
        next_iv_def next_object_def
      split: option.splits prod.splits)

lemma targetExtension_mp4 [simp]: "targetExtension ''.mp4'' = ''.mp4''"
  by (simp add: targetExtension_def startsWith_def)

lemma persist_cases:
  assumes "persistUploadedFile cfg e file a w = (Inr r, w')"
  shows "(\<not> shouldConvertToMp4 file \<and>
          (\<exists>enc w1. encryptAndStoreFromDisk cfg e (tmp_path file)
                        (targetExtension (extname (originalname file))) w = (Inr enc, w1)
                   \<and> r = fileRecordOf a file (mimetype file) enc
                   \<and> w' = safeUnlink (tmp_path file) w1))
       \<or> (shouldConvertToMp4 file \<and>
          (\<exists>cp wc enc w1. convertToMp4 cfg e (tmp_path file) w = (Inr cp, wc)
                   \<and> encryptAndStoreFromDisk cfg e cp ''.mp4'' (safeUnlink (tmp_path file) wc) = (Inr enc, w1)
                   \<and> r = fileRecordOf a file ''video/mp4'' enc
                   \<and> w' = safeUnlink cp w1))"
  using assms
  by (auto simp: persistUploadedFile_def persist_try_def persist_store_def
      split: if_splits prod.splits sum.splits)


lemma frame_refl [simp]: "frame w w"
  by (simp add: frame_def)

lemma frame_trans: "frame w w1 \<Longrightarrow> frame w1 w2 \<Longrightarrow> frame w w2"
  by (simp add: frame_def)

lemma frame_safeUnlink [simp]: "frame w (safeUnlink p w)"
  by (simp add: frame_def safeUnlink_log)

lemma frame_convert: "convertToMp4 cfg e i w = (r, w') \<Longrightarrow> frame w w'"
  by (simp add: frame_def convertToMp4_frame)

lemma frame_encrypt: "encryptAndStoreFromDisk cfg e i x w = (r, w') \<Longrightarrow> frame w w'"
  by (simp add: frame_def encrypt_frame)

lemma frame_persist_store:
  "persist_store cfg e file a wp m x w = (wp', r, w') \<Longrightarrow> frame w w'"
  by (auto simp: persist_store_def split: prod.splits sum.splits dest: frame_encrypt)

lemma frame_persist_try:
  assumes "persist_try cfg e file a w = (wp, r, w')"
  shows "frame w w'"
proof (cases "shouldConvertToMp4 file")
  case False
  with assms show ?thesis by (auto simp: persist_try_def dest: frame_persist_store)
next
  case True
  obtain rc wc where c: "convertToMp4 cfg e (tmp_path file) w = (rc, wc)"
    by (cases "convertToMp4 cfg e (tmp_path file) w") auto
  have f1: "frame w wc" using c by (rule frame_convert)
  show ?thesis
  proof (cases rc)
    case (Inl err)
    with assms True c f1 show ?thesis by (simp add: persist_try_def)
  next
    case (Inr cp)
    with assms True c
    have "persist_store cfg e file a cp ''video/mp4'' ''.mp4'' (safeUnlink (tmp_path file) wc) = (wp, r, w')"
      by (simp add: persist_try_def)
    then have "frame (safeUnlink (tmp_path file) wc) w'" by (rule frame_persist_store)
    with f1 show ?thesis by (meson frame_trans frame_safeUnlink)
  qed
qed

lemma frame_persist:
  assumes "persistUploadedFile cfg e file a w = (res, w')"
  shows "frame w w'"
proof -
  obtain wp r w1 where pt: "persist_try cfg e file a w = (wp, r, w1)"
    by (cases "persist_try cfg e file a w") auto
  with assms have w': "w' = safeUnlink wp w1" by (simp add: persistUploadedFile_def)
  from frame_persist_try [OF pt] show ?thesis
    unfolding w' by (meson frame_trans frame_safeUnlink)
qed

lemma frame_persist_all:
  "persist_all cfg e fls a w = (res, w') \<Longrightarrow> frame w w'"
proof (induction fls arbitrary: w res w')
  case Nil
  then show ?case by simp
next
  case (Cons f fls)
  obtain r1 w1 where p: "persistUploadedFile cfg e f a w = (r1, w1)"
    by (cases "persistUploadedFile cfg e f a w") auto
  have f1: "frame w w1" using p by (rule frame_persist)
  show ?case
  proof (cases r1)
    case (Inl err)
    with Cons.prems p f1 show ?thesis by simp
  next
    case (Inr rcd)
    obtain r2 w2 where q: "persist_all cfg e fls a w1 = (r2, w2)"
      by (cases "persist_all cfg e fls a w1") auto
    have "frame w1 w2" using q by (rule Cons.IH)
    with f1 have "frame w w2" by (rule frame_trans)
    moreover have "w' = w2" using Cons.prems p Inr q by (cases r2) auto
    ultimately show ?thesis by simp
  qed
qed

lemma frame_upload_finally: "frame w (upload_finally fls w)"
proof -
  have "frame w0 (foldl (\<lambda>w0 file. safeUnlink (tmp_path file) w0) w fls)" if "frame w0 w" for w0
    using that
  proof (induction fls arbitrary: w)
    case Nil
    then show ?case by simp
  next
    case (Cons f fls)
    have "frame w0 (safeUnlink (tmp_path f) w)"
      using Cons.prems by (meson frame_trans frame_safeUnlink)
    from Cons.IH [OF this] show ?case by simp
  qed
  then show ?thesis by (simp add: upload_finally_def)
qed

subsection \<open>GET /uploads/:filename: failures\<close>

lemma traversal_rejected:
  "resolveStoragePath example_config ''../../etc/passwd'' = Inl (Error ''Invalid file path'')"
  by (simp add: resolveStoragePath_def example_config_def uploadsDir_def posix_join_def
       posix_normalize_def normalizeString_def normalize_segs_def norm_step_def
       posix_resolve_def posix_relative_def path_segs_def isAbsolute_def startsWith_def Let_def)

text \<open>
  C1 as stated fails: a record whose stored path leaves the storage root is answered with
  the 500 of the error middleware, a missing record with 404.
\<close>

theorem C1_counterexample:
  "fst (streamObject example_config example_env ''evil'' traversal_world)
     = Response 500 (JsonError ''Internal server error'')
   \<and> fst (streamObject example_config example_env ''absent'' traversal_world)
     = Response 404 (Text ''File not found'')"
  by (simp add: streamObject_def streamRecord_def traversal_world_def traversal_record_def
       empty_world_def emit_def errorMiddleware_def traversal_rejected)

text \<open>
  C1, amended. StreamObject answers 404 "File not found" for every stored name without a
  catalog record (crafted names such as ../../etc/passwd are looked up like any other
  name and never used as a path). For a record whose stored path fails the containment
  check it answers with the generic 500 "Internal server error". Neither case reads a
  file, and every path StreamObject reads is contained in the storage root.
\<close>

theorem C1_streamObject:
  "streamObject cfg e name w = (res, w') \<Longrightarrow>
     (find (\<lambda>r. filename r = name) (files w) = None \<longrightarrow>
        res = Response 404 (Text ''File not found'') \<and> reads (log w') = reads (log w))
   \<and> (\<forall>r err. find (\<lambda>r. filename r = name) (files w) = Some r
                \<and> resolveStoragePath cfg (path r) = Inl err \<longrightarrow>
        res = Response 500 (JsonError ''Internal server error'') \<and> reads (log w') = reads (log w))
   \<and> (\<exists>ps. reads (log w') = reads (log w) @ ps \<and> (\<forall>p \<in> set ps. contained cfg p))"
  by (auto simp: streamObject_def streamRecord_def Let_def emit_def errorMiddleware_def reads_def
      split: option.splits sum.splits error.splits if_splits
      dest: resolveStoragePath_contained)

theorem C1_streamObject_witness:
  "find (\<lambda>r. filename r = ''absent'') (files traversal_world) = None
   \<and> fst (streamObject example_config example_env ''absent'' traversal_world)
       = Response 404 (Text ''File not found'')
   \<and> reads (log (snd (streamObject example_config example_env ''absent'' traversal_world))) = []
   \<and> find (\<lambda>r. filename r = ''evil'') (files traversal_world) = Some traversal_record
   \<and> resolveStoragePath example_config (path traversal_record) = Inl (Error ''Invalid file path'')
   \<and> fst (streamObject example_config example_env ''evil'' traversal_world)
       = Response 500 (JsonError ''Internal server error'')
   \<and> reads (log (snd (streamObject example_config example_env ''evil'' traversal_world))) = []"
  using C1_streamObject [of example_config example_env "''absent''" traversal_world
          "fst (streamObject example_config example_env ''absent'' traversal_world)"
          "snd (streamObject example_config example_env ''absent'' traversal_world)"]
        C1_streamObject [of example_config example_env "''evil''" traversal_world
          "fst (streamObject example_config example_env ''evil'' traversal_world)"
          "snd (streamObject example_config example_env ''evil'' traversal_world)"]
        traversal_rejected
  by (simp add: traversal_world_def traversal_record_def empty_world_def reads_def)

subsection \<open>Input validation\<close>

text \<open>
  C7. Input-validation failures have no effect: an upload without files is answered with
  400 "No files uploaded" and leaves the world as it was (no album, no file record, no
  query); GetAlbum with a malformed token is answered with 400 "Invalid album identifier"
  and leaves the world as it was, so no catalog lookup has been issued; a well-formed
  token that no album has is answered with 404 "Album not found", with catalog and file
  system unchanged.
\<close>

theorem C7_validation:
  "postUpload cfg e [] w = (Response 400 (JsonError ''No files uploaded''), w)
   \<and> (\<not> validateUuid t \<longrightarrow>
        getAlbum t w = (Response 400 (JsonError ''Invalid album identifier''), w)
        \<and> catalog_lookups (log (snd (getAlbum t w))) = catalog_lookups (log w))
   \<and> (validateUuid t \<and> t \<notin> permalink ` set (albums w) \<longrightarrow>
        fst (getAlbum t w) = Response 404 (JsonError ''Album not found'')
        \<and> catalog (snd (getAlbum t w)) = catalog w
        \<and> fs (snd (getAlbum t w)) = fs w)"
proof -
  have a: "postUpload cfg e [] w = (Response 400 (JsonError ''No files uploaded''), w)"
    by (simp add: postUpload_def)
  have b: "\<not> validateUuid t \<longrightarrow>
        getAlbum t w = (Response 400 (JsonError ''Invalid album identifier''), w)
        \<and> catalog_lookups (log (snd (getAlbum t w))) = catalog_lookups (log w)"
    by (simp add: getAlbum_def)
  have c: "validateUuid t \<and> t \<notin> permalink ` set (albums w) \<longrightarrow>
        fst (getAlbum t w) = Response 404 (JsonError ''Album not found'')
        \<and> catalog (snd (getAlbum t w)) = catalog w
        \<and> fs (snd (getAlbum t w)) = fs w"
  proof
    assume h: "validateUuid t \<and> t \<notin> permalink ` set (albums w)"
    then have "find (\<lambda>a. permalink a = t) (albums w) = None"
      by (auto simp: find_None_iff)
    with h show "fst (getAlbum t w) = Response 404 (JsonError ''Album not found'')
        \<and> catalog (snd (getAlbum t w)) = catalog w
        \<and> fs (snd (getAlbum t w)) = fs w"
      by (simp add: getAlbum_def Let_def emit_def catalog_def)
  qed
  from a b c show ?thesis by blast
qed

lemma validateUuid_example:
  "validateUuid ''11111111-1111-4111-8111-111111111111''"
  "validateUuid ''22222222-2222-4222-8222-222222222222''"
  "validateUuid ''33333333-3333-4333-8333-333333333333''"
  "validateUuid ''44444444-4444-4444-8444-444444444444''"
  by (simp_all add: validateUuid_def uuid_pattern_def is_hex_def unhex_def numeral_eq_Suc)

lemma not_a_token: "\<not> validateUuid ''not-a-token''"
  using validateUuid_chars(1) [of "''not-a-token''"] by auto

theorem C7_validation_witness:
  "\<not> validateUuid ''not-a-token''
   \<and> getAlbum ''not-a-token'' empty_world
       = (Response 400 (JsonError ''Invalid album identifier''), empty_world)
   \<and> validateUuid ''11111111-1111-4111-8111-111111111111''
   \<and> fst (getAlbum ''11111111-1111-4111-8111-111111111111'' empty_world)
       = Response 404 (JsonError ''Album not found'')
   \<and> postUpload example_config example_env [] empty_world
       = (Response 400 (JsonError ''No files uploaded''), empty_world)"
  using C7_validation [of example_config example_env empty_world "''not-a-token''"]
        C7_validation [of example_config example_env empty_world "''11111111-1111-4111-8111-111111111111''"]
        validateUuid_example not_a_token
  by (simp add: empty_world_def)

subsection \<open>Concrete runs and cipher parameters\<close>

lemma example_uuids: "validateUuid (uuid_source example_env n)"
  by (simp add: example_env_def validateUuid_example)

lemma example_dirname:
  "\<forall>s \<in> set [''app'']. clean_seg s" "dirname example_config = CHR ''/'' # join_segs [''app'']"
  by (simp_all add: clean_seg_def example_config_def)

lemma extname_examples: "extname ''cat.png'' = ''.png''" "extname ''clip.MOV'' = ''.MOV''"
  by (simp_all add: extname_def ext_step_def slice_def Let_def numeral_eq_Suc)

lemma shouldConvert_examples: "\<not> shouldConvertToMp4 photo_file" "shouldConvertToMp4 movie_file"
  by (simp_all add: shouldConvertToMp4_def photo_file_def movie_file_def extname_examples
        toLowerCase_def toLowerChar_def quickTimeTypes_def quickTimeExtensions_def)

lemma persist_photo:
  "fst (persistUploadedFile example_config example_env photo_file 1 upload_world) = Inr photo_record"
  by code_simp



subsection \<open>Transcoding\<close>

lemma persist_store_ffmpeg:
  "persist_store cfg e file a wp m x w = (wp', r, w') \<Longrightarrow> ffmpeg_runs (log w') = ffmpeg_runs (log w)"
  by (auto simp: persist_store_def split: prod.splits sum.splits dest: encrypt_frame(5))

lemma convert_ffmpeg:
  assumes "convertToMp4 cfg e i w = (r, w')"
  shows "ffmpeg_runs (log w') = ffmpeg_runs (log w) @
           (if ffmpegStatic cfg then [(i, posix_join (tmpdir cfg) (uuid_source e (uuid_count w) @ ''.mp4''))] else [])"
    and "\<not> ffmpegStatic cfg \<Longrightarrow> \<exists>msg. r = Inl (Error msg)"
  using assms
  by (auto simp: convertToMp4_def uuidv4_def emit_def Let_def ffmpeg_runs_def
      split: if_splits option.splits transcode_outcome.splits)

text \<open>
  C6. The transcode step is entered exactly when the declared MIME type is video/quicktime
  or the lower-cased extension of the original name is .mov or .qt: in that case, and in
  no other, persisting the file runs the transcoder once on the uploaded temporary file
  (or fails at once when no transcoder binary is available). When the file is then
  stored, its record has content type video/mp4 and its stored name is the fresh
  identifier followed by .mp4; a file that is not converted keeps its declared type.
\<close>

theorem C6_transcode:
  "(shouldConvertToMp4 file \<longleftrightarrow>
      mimetype file = ''video/quicktime''
      \<or> toLowerCase (extname (originalname file)) = ''.mov''
      \<or> toLowerCase (extname (originalname file)) = ''.qt'')
   \<and> (persistUploadedFile cfg e file a w = (res, w') \<longrightarrow>
        ffmpeg_runs (log w') = ffmpeg_runs (log w) @
          (if shouldConvertToMp4 file \<and> ffmpegStatic cfg
           then [(tmp_path file, posix_join (tmpdir cfg) (uuid_source e (uuid_count w) @ ''.mp4''))]
           else [])
        \<and> (shouldConvertToMp4 file \<and> \<not> ffmpegStatic cfg \<longrightarrow> (\<exists>msg. res = Inl (Error msg)))
        \<and> (\<forall>r. res = Inr r \<and> shouldConvertToMp4 file \<longrightarrow>
              ftype r = ''video/mp4'' \<and> (\<exists>u. filename r = u @ ''.mp4'' \<and> path r = posix_relative (cwd cfg) (dirname cfg)
                  (posix_join (dirname cfg) (posix_join ''uploads'' (u @ ''.mp4'')))))
        \<and> (\<forall>r. res = Inr r \<and> \<not> shouldConvertToMp4 file \<longrightarrow> ftype r = mimetype file))"
proof -
  have a: "shouldConvertToMp4 file \<longleftrightarrow>
      mimetype file = ''video/quicktime''
      \<or> toLowerCase (extname (originalname file)) = ''.mov''
      \<or> toLowerCase (extname (originalname file)) = ''.qt''"
    by (simp add: shouldConvertToMp4_def quickTimeTypes_def quickTimeExtensions_def Let_def)
  have b: "ffmpeg_runs (log w') = ffmpeg_runs (log w) @
          (if shouldConvertToMp4 file \<and> ffmpegStatic cfg
           then [(tmp_path file, posix_join (tmpdir cfg) (uuid_source e (uuid_count w) @ ''.mp4''))]
           else [])
        \<and> (shouldConvertToMp4 file \<and> \<not> ffmpegStatic cfg \<longrightarrow> (\<exists>msg. res = Inl (Error msg)))"
    if p: "persistUploadedFile cfg e file a w = (res, w')"
  proof -
    obtain wp r w1 where pt: "persist_try cfg e file a w = (wp, r, w1)"
      by (cases "persist_try cfg e file a w") auto
    with p have w': "w' = safeUnlink wp w1" and r: "res = r" by (simp_all add: persistUploadedFile_def)
    show ?thesis
    proof (cases "shouldConvertToMp4 file")
      case False
      with pt have "ffmpeg_runs (log w1) = ffmpeg_runs (log w)"
        by (auto simp: persist_try_def dest: persist_store_ffmpeg)
      with False show ?thesis by (simp add: w' safeUnlink_log)
    next
      case True
      obtain rc wc where c: "convertToMp4 cfg e (tmp_path file) w = (rc, wc)"
        by (cases "convertToMp4 cfg e (tmp_path file) w") auto
      note cf = convert_ffmpeg [OF c]
      show ?thesis
      proof (cases rc)
        case (Inl err)
        with pt True c have "w1 = wc" "r = Inl err" by (simp_all add: persist_try_def)
        with cf(1) True Inl r show ?thesis
          by (cases err) (auto simp: w' safeUnlink_log)
      next
        case (Inr cp)
        with pt True c
        have "persist_store cfg e file a cp ''video/mp4'' ''.mp4'' (safeUnlink (tmp_path file) wc) = (wp, r, w1)"
          by (simp add: persist_try_def)
        from persist_store_ffmpeg [OF this] have "ffmpeg_runs (log w1) = ffmpeg_runs (log wc)"
          by (simp add: safeUnlink_log)
        moreover have "ffmpegStatic cfg" using cf(2) Inr by auto
        ultimately show ?thesis using cf(1) True by (simp add: w' safeUnlink_log)
      qed
    qed
  qed
  have c: "ftype r = ''video/mp4'' \<and> (\<exists>u. filename r = u @ ''.mp4'' \<and> path r = posix_relative (cwd cfg) (dirname cfg)
                  (posix_join (dirname cfg) (posix_join ''uploads'' (u @ ''.mp4''))))"
    if p: "persistUploadedFile cfg e file a w = (Inr r, w')" and s: "shouldConvertToMp4 file" for r
  proof -
    from persist_cases [OF p] s obtain cp wc enc w1 where
      enc: "encryptAndStoreFromDisk cfg e cp ''.mp4'' (safeUnlink (tmp_path file) wc) = (Inr enc, w1)"
      and r: "r = fileRecordOf a file ''video/mp4'' enc"
      by auto
    from encrypt_Inr [OF enc] r show ?thesis
      by (auto simp: fileRecordOf_def next_object_def)
  qed
  have d: "ftype r = mimetype file"
    if p: "persistUploadedFile cfg e file a w = (Inr r, w')" and s: "\<not> shouldConvertToMp4 file" for r
    using persist_cases [OF p] s by (auto simp: fileRecordOf_def)
  from a b c d show ?thesis by blast
qed

lemma persist_movie:
  "fst (persistUploadedFile example_config example_env movie_file 1 upload_world) = Inr movie_record"
  by code_simp

lemma persist_movie_runs:
  "ffmpeg_runs (log (snd (persistUploadedFile example_config example_env movie_file 1 upload_world)))
     = [(''/tmp/2-upload.MOV'', ''/tmp/11111111-1111-4111-8111-111111111111.mp4'')]"
  by code_simp

theorem C6_transcode_witness:
  "shouldConvertToMp4 movie_file
   \<and> fst (persistUploadedFile example_config example_env movie_file 1 upload_world) = Inr movie_record
   \<and> ftype movie_record = ''video/mp4''
   \<and> filename movie_record = ''22222222-2222-4222-8222-222222222222'' @ ''.mp4''
   \<and> ffmpeg_runs (log (snd (persistUploadedFile example_config example_env movie_file 1 upload_world)))
       = [(''/tmp/2-upload.MOV'', ''/tmp/11111111-1111-4111-8111-111111111111.mp4'')]
   \<and> \<not> shouldConvertToMp4 photo_file
   \<and> ffmpeg_runs (log (snd (persistUploadedFile example_config example_env photo_file 1 upload_world))) = []
   \<and> ftype photo_record = mimetype photo_file"
  using C6_transcode [of movie_file example_config example_env 1 upload_world
          "fst (persistUploadedFile example_config example_env movie_file 1 upload_world)"
          "snd (persistUploadedFile example_config example_env movie_file 1 upload_world)"]
        C6_transcode [of photo_file example_config example_env 1 upload_world
          "fst (persistUploadedFile example_config example_env photo_file 1 upload_world)"
          "snd (persistUploadedFile example_config example_env photo_file 1 upload_world)"]
        persist_movie persist_movie_runs persist_photo shouldConvert_examples
  by (simp add: movie_record_def photo_record_def photo_file_def upload_world_def empty_world_def
        ffmpeg_runs_def)

subsection \<open>Write path and read path agree\<close>

lemma encrypt_written:
  assumes D: "\<forall>s \<in> set D. clean_seg s" and d: "dirname cfg = CHR ''/'' # join_segs D"
    and uu: "\<forall>n. validateUuid (uuid_source e n)" and x: "CHR ''/'' \<notin> set x"
    and enc: "encryptAndStoreFromDisk cfg e i x w = (Inr enc, w1)"
  shows "next_object cfg e x w = CHR ''/'' # join_segs (D @ [''uploads'', enc_filename enc])"
    and "relativePath enc = ''uploads/'' @ enc_filename enc"
    and "resolveStoragePath cfg (relativePath enc) = Inr (next_object cfg e x w)"
    and "contained cfg (next_object cfg e x w)"
proof -
  let ?f = "uuid_source e (uuid_count w) @ x"
  from encrypt_Inr [OF enc] have f: "enc_filename enc = ?f"
    and rp: "relativePath enc = posix_relative (cwd cfg) (dirname cfg) (next_object cfg e x w)"
    by auto
  from uu have "validateUuid (uuid_source e (uuid_count w))" by simp
  note c = uuid_filename_clean [OF this x]
  note rw = resolve_written [OF D d c]
  show 1: "next_object cfg e x w = CHR ''/'' # join_segs (D @ [''uploads'', enc_filename enc])"
    using rw(1) by (simp add: next_object_def f)
  show 2: "relativePath enc = ''uploads/'' @ enc_filename enc"
    using rw(2) 1 by (simp add: rp f)
  show 3: "resolveStoragePath cfg (relativePath enc) = Inr (next_object cfg e x w)"
    using rw(3) 1 2 by (simp add: f)
  show "contained cfg (next_object cfg e x w)"
    using 3 by (rule resolveStoragePath_contained)
qed

lemma persist_written:
  assumes D: "\<forall>s \<in> set D. clean_seg s" and d: "dirname cfg = CHR ''/'' # join_segs D"
    and uu: "\<forall>n. validateUuid (uuid_source e n)"
    and p: "persistUploadedFile cfg e file a w = (Inr r, w')"
  shows "path r = ''uploads/'' @ filename r"
    and "resolveStoragePath cfg (path r) = Inr (CHR ''/'' # join_segs (D @ [''uploads'', filename r]))"
    and "writes (log w') = writes (log w) @ [CHR ''/'' # join_segs (D @ [''uploads'', filename r])]"
proof -
  let ?obj = "CHR ''/'' # join_segs (D @ [''uploads'', filename r])"
  have "path r = ''uploads/'' @ filename r \<and> resolveStoragePath cfg (path r) = Inr ?obj
        \<and> writes (log w') = writes (log w) @ [?obj]"
    using persist_cases [OF p]
  proof (elim disjE conjE exE)
    fix enc w1
    assume enc: "encryptAndStoreFromDisk cfg e (tmp_path file)
                   (targetExtension (extname (originalname file))) w = (Inr enc, w1)"
      and r: "r = fileRecordOf a file (mimetype file) enc" and w': "w' = safeUnlink (tmp_path file) w1"
    have x: "CHR ''/'' \<notin> set (targetExtension (extname (originalname file)))"
      by (rule targetExtension_no_slash [OF extname_no_slash])
    note ew = encrypt_written [OF D d uu x enc]
    from encrypt_Inr [OF enc] have "writes (log w1) = writes (log w) @
        [next_object cfg e (targetExtension (extname (originalname file))) w]"
      by (auto simp: writes_def)
    with ew show ?thesis by (simp add: r w' fileRecordOf_def safeUnlink_log)
  next
    fix cp wc enc w1
    assume c: "convertToMp4 cfg e (tmp_path file) w = (Inr cp, wc)"
      and enc: "encryptAndStoreFromDisk cfg e cp ''.mp4'' (safeUnlink (tmp_path file) wc) = (Inr enc, w1)"
      and r: "r = fileRecordOf a file ''video/mp4'' enc" and w': "w' = safeUnlink cp w1"
    have x: "CHR ''/'' \<notin> set ''.mp4''" by simp
    note ew = encrypt_written [OF D d uu x enc]
    from encrypt_Inr [OF enc] have "writes (log w1) = writes (log (safeUnlink (tmp_path file) wc)) @
        [next_object cfg e ''.mp4'' (safeUnlink (tmp_path file) wc)]"
      by (auto simp: writes_def)
    with ew convertToMp4_frame(5) [OF c] show ?thesis
      by (simp add: r w' fileRecordOf_def safeUnlink_log)
  qed
  then show "path r = ''uploads/'' @ filename r"
    and "resolveStoragePath cfg (path r) = Inr ?obj"
    and "writes (log w') = writes (log w) @ [?obj]"
    by blast+
qed

text \<open>
  C9. For every record the upload path produces, the stored relative path is uploads/
  followed by the stored name, resolveStoragePath accepts it and returns the absolute
  path under the storage root at which the ciphertext was written (the one write of that
  upload), and that path is contained in the storage root. \<^verbatim>\<open>__dirname\<close> is an absolute
  normalized path and \<^verbatim>\<open>uuidv4()\<close> returns well-formed identifiers.
\<close>

theorem C9_write_read_path:
  "\<lbrakk>\<forall>s \<in> set D. clean_seg s; dirname cfg = CHR ''/'' # join_segs D;
    \<forall>n. validateUuid (uuid_source e n);
    persistUploadedFile cfg e file a w = (Inr r, w')\<rbrakk>
   \<Longrightarrow> \<exists>obj. resolveStoragePath cfg (path r) = Inr obj
          \<and> obj = CHR ''/'' # join_segs (D @ [''uploads'', filename r])
          \<and> path r = ''uploads/'' @ filename r
          \<and> writes (log w') = writes (log w) @ [obj]
          \<and> contained cfg obj"
proof -
  assume D: "\<forall>s \<in> set D. clean_seg s" and d: "dirname cfg = CHR ''/'' # join_segs D"
    and uu: "\<forall>n. validateUuid (uuid_source e n)"
    and p: "persistUploadedFile cfg e file a w = (Inr r, w')"
  note pw = persist_written [OF D d uu p]
  from pw(2) have "contained cfg (CHR ''/'' # join_segs (D @ [''uploads'', filename r]))"
    by (rule resolveStoragePath_contained)
  with pw show ?thesis by blast
qed

theorem C9_write_read_path_witness:
  "clean_seg ''app'' \<and> dirname example_config = CHR ''/'' # join_segs [''app'']
   \<and> validateUuid (uuid_source example_env 0)
   \<and> fst (persistUploadedFile example_config example_env photo_file 1 upload_world) = Inr photo_record
   \<and> resolveStoragePath example_config (path photo_record)
       = Inr ''/app/uploads/11111111-1111-4111-8111-111111111111.png''
   \<and> contained example_config ''/app/uploads/11111111-1111-4111-8111-111111111111.png''"
  using C9_write_read_path [of "[''app'']" example_config example_env photo_file 1 upload_world
          photo_record "snd (persistUploadedFile example_config example_env photo_file 1 upload_world)"]
        example_dirname example_uuids persist_photo
  by (auto simp: prod_eq_iff photo_record_def)

subsection \<open>The upload handler\<close>

lemma persist_all_records:
  "persist_all cfg e fls a w = (Inr rs, w') \<Longrightarrow>
     map original_name rs = map originalname fls
     \<and> (\<forall>r \<in> set rs. album_id r = a
           \<and> (\<exists>f wa wb. persistUploadedFile cfg e f a wa = (Inr r, wb)))"
proof (induction fls arbitrary: w rs w')
  case Nil
  then show ?case by simp
next
  case (Cons f fls)
  obtain r1 w1 where p: "persistUploadedFile cfg e f a w = (r1, w1)"
    by (cases "persistUploadedFile cfg e f a w") auto
  show ?case
  proof (cases r1)
    case (Inl err)
    with Cons.prems p show ?thesis by simp
  next
    case (Inr rcd)
    obtain r2 w2 where q: "persist_all cfg e fls a w1 = (r2, w2)"
      by (cases "persist_all cfg e fls a w1") auto
    with Cons.prems p Inr obtain rs2 where r2: "r2 = Inr rs2" and rs: "rs = rcd # rs2"
      by (cases r2) auto
    note p' = p [unfolded Inr]
    from persist_cases [OF p'] have "original_name rcd = originalname f \<and> album_id rcd = a"
      by (auto simp: fileRecordOf_def)
    moreover have "\<exists>f wa wb. persistUploadedFile cfg e f a wa = (Inr rcd, wb)"
      using p' by blast
    ultimately show ?thesis using Cons.IH [OF q [unfolded r2]] rs by simp
  qed
qed

lemma insertFile_fields:
  assumes "insertFile e r w = (ok, w1)"
  shows "albums w1 = albums w" "next_album_id w1 = next_album_id w" "fs w1 = fs w"
    "undeletable w1 = undeletable w" "files w1 = (if ok then files w @ [r] else files w)"
  using assms by (auto simp: insertFile_def Let_def emit_def split: if_splits)

lemma insertFiles_fields:
  "insertFiles e rs w = (res, w') \<Longrightarrow>
     albums w' = albums w \<and> next_album_id w' = next_album_id w \<and> fs w' = fs w
     \<and> undeletable w' = undeletable w
     \<and> (\<exists>k \<le> length rs. files w' = files w @ take k rs \<and> (res = None \<longrightarrow> k = length rs))"
proof (induction rs arbitrary: w)
  case Nil
  then show ?case by simp
next
  case (Cons r rs)
  obtain ok w1 where i: "insertFile e r w = (ok, w1)" by (cases "insertFile e r w") auto
  note f = insertFile_fields [OF i]
  show ?case
  proof (cases ok)
    case False
    with Cons.prems i have "w' = w1" "res \<noteq> None" by auto
    with f False show ?thesis by (auto intro: exI [of _ 0])
  next
    case True
    with Cons.prems i have "insertFiles e rs w1 = (res, w')" by simp
    from Cons.IH [OF this] obtain k where
      k: "k \<le> length rs" "files w' = files w1 @ take k rs" "res = None \<longrightarrow> k = length rs"
      and o: "albums w' = albums w1" "next_album_id w' = next_album_id w1" "fs w' = fs w1"
        "undeletable w' = undeletable w1"
      by blast
    from k f True have "Suc k \<le> length (r # rs) \<and> files w' = files w @ take (Suc k) (r # rs)
        \<and> (res = None \<longrightarrow> Suc k = length (r # rs))"
      by simp
    with o f show ?thesis by (metis (no_types, lifting))
  qed
qed

lemma insertFiles_states_fields:
  "s \<in> set (insertFiles_states e rs w) \<Longrightarrow>
     albums s = albums w \<and> next_album_id s = next_album_id w
     \<and> (\<exists>k \<le> length rs. files s = files w @ take k rs)"
proof (induction rs arbitrary: w)
  case Nil
  then show ?case by simp
next
  case (Cons r rs)
  obtain ok w1 where i: "insertFile e r w = (ok, w1)" by (cases "insertFile e r w") auto
  note f = insertFile_fields [OF i]
  show ?case
  proof (cases ok)
    case False
    with Cons.prems i have "s = w1" by simp
    with f False show ?thesis by (auto intro: exI [of _ 0])
  next
    case True
    with Cons.prems i have "s = w1 \<or> s \<in> set (insertFiles_states e rs w1)" by auto
    then show ?thesis
    proof
      assume "s = w1"
      with f True have "files s = files w @ take (Suc 0) (r # rs)" by simp
      moreover have "Suc 0 \<le> length (r # rs)" by simp
      ultimately show ?thesis using f \<open>s = w1\<close> by blast
    next
      assume "s \<in> set (insertFiles_states e rs w1)"
      from Cons.IH [OF this] obtain k where
        k: "k \<le> length rs" "files s = files w1 @ take k rs"
        and o: "albums s = albums w1" "next_album_id s = next_album_id w1"
        by blast
      from k f True have "Suc k \<le> length (r # rs) \<and> files s = files w @ take (Suc k) (r # rs)"
        by simp
      with o f show ?thesis by (metis (no_types, lifting))
    qed
  qed
qed

lemma upload_finally_fields:
  "albums (upload_finally fls w) = albums w" "next_album_id (upload_finally fls w) = next_album_id w"
  "files (upload_finally fls w) = files w" "undeletable (upload_finally fls w) = undeletable w"
  using frame_upload_finally [of w fls] by (simp_all add: frame_def catalog_def)

lemma persist_all_fields:
  assumes "persist_all cfg e fls a w = (res, w')"
  shows "albums w' = albums w" "next_album_id w' = next_album_id w" "files w' = files w"
    "undeletable w' = undeletable w"
  using frame_persist_all [OF assms] by (simp_all add: frame_def catalog_def)

lemma insertAlbum_cases:
  assumes "insertAlbum e t w = (r, w1)"
  shows "files w1 = files w \<and> undeletable w1 = undeletable w \<and> fs w1 = fs w
       \<and> ((\<exists>err. r = Inl err) \<and> albums w1 = albums w \<and> next_album_id w1 = next_album_id w
           \<or> r = Inr (next_album_id w) \<and> \<not> list_ex (\<lambda>a. permalink a = t) (albums w)
             \<and> albums w1 = albums w @ [\<lparr>album_pk = next_album_id w, permalink = t\<rparr>]
             \<and> next_album_id w1 = Suc (next_album_id w))"
  using assms by (auto simp: insertAlbum_def Let_def emit_def split: if_splits)

lemma errorMiddleware_fields:
  assumes "errorMiddleware err w = (res, w')"
  shows "res = Response 500 (JsonError ''Internal server error'')" "albums w' = albums w"
    "files w' = files w" "next_album_id w' = next_album_id w" "undeletable w' = undeletable w"
    "fs w' = fs w"
  using assms by (cases err; auto simp: errorMiddleware_def emit_def)+

text \<open>
  What the \<^verbatim>\<open>try\<close> block leaves in the catalog: no album row and no new file row when the
  album insert is rejected; else the album row and a leading part of the records of the
  persisted files, all of them when the answer is the permalink.
\<close>

lemma upload_try_cases:
  assumes "upload_try cfg e fls t w = (res, w')"
  shows "undeletable w' = undeletable w
       \<and> (res = Response 200 (JsonPermalink t) \<or> res = Response 500 (JsonError ''Internal server error''))
       \<and> (\<exists>rs. files w' = files w @ rs
             \<and> map original_name rs = take (length rs) (map originalname fls)
             \<and> (\<forall>r \<in> set rs. album_id r = next_album_id w
                   \<and> (\<exists>f wa wb. persistUploadedFile cfg e f (next_album_id w) wa = (Inr r, wb)))
             \<and> (res = Response 200 (JsonPermalink t) \<longrightarrow> length rs = length fls)
             \<and> (albums w' = albums w \<and> rs = [] \<and> res \<noteq> Response 200 (JsonPermalink t)
                 \<or> albums w' = albums w @ [\<lparr>album_pk = next_album_id w, permalink = t\<rparr>]
                   \<and> \<not> list_ex (\<lambda>a. permalink a = t) (albums w)))"
proof -
  obtain ra wa where ia: "insertAlbum e t w = (ra, wa)" by (cases "insertAlbum e t w") auto
  note ic = insertAlbum_cases [OF ia]
  show ?thesis
  proof (cases ra)
    case (Inl err)
    with assms ia have em: "errorMiddleware err wa = (res, w')" by (simp add: upload_try_def)
    note ef = errorMiddleware_fields [OF em]
    from ic Inl have "albums wa = albums w" "files wa = files w" "undeletable wa = undeletable w"
      by auto
    with ef show ?thesis by (auto intro: exI [of _ "[]"])
  next
    case (Inr k)
    with ic have k: "k = next_album_id w" and fresh: "\<not> list_ex (\<lambda>a. permalink a = t) (albums w)"
      and al: "albums wa = albums w @ [\<lparr>album_pk = next_album_id w, permalink = t\<rparr>]"
      and fa: "files wa = files w" "undeletable wa = undeletable w"
      by auto
    obtain r2 w2 where pa: "persist_all cfg e fls k wa = (r2, w2)"
      by (cases "persist_all cfg e fls k wa") auto
    note pf = persist_all_fields [OF pa]
    show ?thesis
    proof (cases r2)
      case (Inl err)
      with assms ia Inr pa have em: "errorMiddleware err w2 = (res, w')" by (simp add: upload_try_def)
      note ef = errorMiddleware_fields [OF em]
      from ef pf al fa fresh show ?thesis by (auto intro: exI [of _ "[]"])
    next
      case recs: (Inr rs)
      note pr = persist_all_records [OF pa [unfolded recs]]
      obtain r3 w3 where ins: "insertFiles e rs w2 = (r3, w3)" by (cases "insertFiles e rs w2") auto
      from insertFiles_fields [OF ins] obtain j where
        j: "j \<le> length rs" "files w3 = files w2 @ take j rs" "r3 = None \<longrightarrow> j = length rs"
        and o: "albums w3 = albums w2" "undeletable w3 = undeletable w2"
        by blast
      have lr: "length rs = length fls" using pr by (metis length_map)
      have tk: "map original_name (take j rs) = take (length (take j rs)) (map originalname fls)"
        using pr j(1) by (simp add: take_map [symmetric] min_def)
      have mem: "\<forall>r \<in> set (take j rs). album_id r = next_album_id w
                   \<and> (\<exists>f wa wb. persistUploadedFile cfg e f (next_album_id w) wa = (Inr r, wb))"
        using pr k by (auto dest: in_set_takeD)
      show ?thesis
      proof (cases r3)
        case None
        with assms ia Inr pa recs ins have "res = Response 200 (JsonPermalink t)" "w' = w3"
          by (simp_all add: upload_try_def)
        with j None o pf al fa fresh tk mem lr show ?thesis
          by (intro conjI exI [of _ "take j rs"]) auto
      next
        case (Some err)
        with assms ia Inr pa recs ins have em: "errorMiddleware err w3 = (res, w')"
          by (simp add: upload_try_def)
        note ef = errorMiddleware_fields [OF em]
        from ef j o pf al fa fresh tk mem show ?thesis
          by (intro conjI exI [of _ "take j rs"]) auto
      qed
    qed
  qed
qed

lemma postUpload_cases:
  assumes "postUpload cfg e fls w = (res, w')" and "fls \<noteq> []"
  shows "\<exists>w2. upload_try cfg e fls (uuid_source e (uuid_count w)) (w\<lparr>uuid_count := Suc (uuid_count w)\<rparr>) = (res, w2)
            \<and> w' = upload_finally fls w2"
  using assms by (auto simp: postUpload_def uuidv4_def split: prod.splits)

subsection \<open>Cipher selection\<close>










subsection \<open>Round trip\<close>













subsection \<open>Album visibility\<close>

lemma find_snoc:
  "find P (xs @ [x]) = (case find P xs of Some y \<Rightarrow> Some y | None \<Rightarrow> if P x then Some x else None)"
  by (induction xs) auto

lemma getAlbum_new:
  assumes v: "validateUuid t" and fresh: "\<not> list_ex (\<lambda>a. permalink a = t) as"
    and al: "albums w = as @ [\<lparr>album_pk = k, permalink = t\<rparr>]"
  shows "fst (getAlbum t w)
         = Response 200 (JsonFiles (map file_meta_of (filter (\<lambda>r. album_id r = k) (files w))))"
proof -
  from fresh have "find (\<lambda>a. permalink a = t) as = None"
    by (auto simp: find_None_iff list_ex_iff)
  then have "find (\<lambda>a. permalink a = t) (albums w) = Some \<lparr>album_pk = k, permalink = t\<rparr>"
    by (simp add: al find_snoc)
  with v show ?thesis by (simp add: getAlbum_def Let_def emit_def)
qed

lemma getAlbum_absent:
  assumes v: "validateUuid t" and fresh: "\<not> list_ex (\<lambda>a. permalink a = t) (albums w)"
  shows "fst (getAlbum t w) = Response 404 (JsonError ''Album not found'')"
proof -
  from fresh have "find (\<lambda>a. permalink a = t) (albums w) = None"
    by (auto simp: find_None_iff list_ex_iff)
  with v show ?thesis by (simp add: getAlbum_def Let_def emit_def)
qed

lemma filter_old_rows:
  assumes "db_ok w"
  shows "filter (\<lambda>r. album_id r = next_album_id w) (files w) = []"
  using assms by (auto simp: db_ok_def filter_empty_conv)

lemma filter_new_rows:
  "\<forall>r \<in> set rs. album_id r = k \<Longrightarrow> filter (\<lambda>r. album_id r = k) rs = rs"
  by (simp add: filter_id_conv)

lemma getAlbum_upload:
  assumes v: "validateUuid t" and fresh: "\<not> list_ex (\<lambda>a. permalink a = t) (albums w)"
    and ok: "db_ok w"
    and al: "albums s = albums w @ [\<lparr>album_pk = next_album_id w, permalink = t\<rparr>]"
    and fl: "files s = files w @ rs"
    and ids: "\<forall>r \<in> set rs. album_id r = next_album_id w"
  shows "fst (getAlbum t s) = Response 200 (JsonFiles (map file_meta_of rs))"
  using getAlbum_new [OF v fresh al]
  by (simp add: fl filter_old_rows [OF ok] filter_new_rows [OF ids])

text \<open>
  C2 as stated fails. An upload whose transcode step fails answers 500, and the album
  row it inserted first stays in the catalog without files: GetAlbum on its token
  answers 200 with an empty list, not NotFound. And when SQLite rejects the INSERT of the
  second file row, the upload answers 500 and GetAlbum on its token answers 200 with the
  first file only.
\<close>

theorem C2_counterexample:
  "fst (postUpload example_config example_env [movie_file] broken_world)
     = Response 500 (JsonError ''Internal server error'')
   \<and> fst (getAlbum ''11111111-1111-4111-8111-111111111111''
          (snd (postUpload example_config example_env [movie_file] broken_world)))
     = Response 200 (JsonFiles [])
   \<and> fst (postUpload example_config failing_env [photo_file, movie_file] upload_world)
     = Response 500 (JsonError ''Internal server error'')
   \<and> fst (getAlbum ''11111111-1111-4111-8111-111111111111''
          (snd (postUpload example_config failing_env [photo_file, movie_file] upload_world)))
     = Response 200 (JsonFiles
         [FileMeta ''22222222-2222-4222-8222-222222222222.png'' ''cat.png'' ''image/png'' 3])"
  by code_simp

text \<open>
  C2, amended. For an upload whose fresh token is well-formed and not yet in the catalog:
  once the upload has answered with success, GetAlbum on that token returns the complete
  file list, one entry per uploaded file in upload order. Before that, and after an
  upload that fails, an album with no files or with only a leading part of its files can
  be observed: the album row is inserted first, the file rows one by one after all files
  are persisted, and nothing is taken back. In every state the upload ends in, GetAlbum
  on the token answers NotFound or returns the entries of a leading part of the uploaded
  files; in the state after the album insert and in every state while the files are
  persisted it returns an album without files; in the state after each INSERT of a file
  row it returns the entries of the rows inserted so far.
\<close>

theorem C2_album_visibility:
  "\<lbrakk>db_ok w; validateUuid (uuid_source e (uuid_count w));
    \<not> list_ex (\<lambda>a. permalink a = uuid_source e (uuid_count w)) (albums w);
    reqFiles \<noteq> []; postUpload cfg e reqFiles w = (res, w')\<rbrakk>
   \<Longrightarrow> (res = Response 200 (JsonPermalink (uuid_source e (uuid_count w))) \<longrightarrow>
          (\<exists>rs. fst (getAlbum (uuid_source e (uuid_count w)) w') = Response 200 (JsonFiles (map file_meta_of rs))
             \<and> map original_name rs = map originalname reqFiles
             \<and> files w' = files w @ rs))
      \<and> (fst (getAlbum (uuid_source e (uuid_count w)) w') = Response 404 (JsonError ''Album not found'')
          \<or> (\<exists>rs. fst (getAlbum (uuid_source e (uuid_count w)) w') = Response 200 (JsonFiles (map file_meta_of rs))
                \<and> map original_name rs = take (length rs) (map originalname reqFiles)))
      \<and> (\<forall>albumId wa.
            insertAlbum e (uuid_source e (uuid_count w)) (snd (uuidv4 e w)) = (Inr albumId, wa) \<longrightarrow>
              fst (getAlbum (uuid_source e (uuid_count w)) wa) = Response 200 (JsonFiles [])
              \<and> (\<forall>fls r2 wm. persist_all cfg e fls albumId wa = (r2, wm) \<longrightarrow>
                    fst (getAlbum (uuid_source e (uuid_count w)) wm) = Response 200 (JsonFiles []))
              \<and> (\<forall>rs w2. persist_all cfg e reqFiles albumId wa = (Inr rs, w2) \<longrightarrow>
                    (\<forall>s \<in> set (insertFiles_states e rs w2).
                       \<exists>k \<le> length rs. fst (getAlbum (uuid_source e (uuid_count w)) s)
                              = Response 200 (JsonFiles (map file_meta_of (take k rs))))))"
proof -
  let ?t = "uuid_source e (uuid_count w)"
  let ?w1 = "w\<lparr>uuid_count := Suc (uuid_count w)\<rparr>"
  let ?new = "\<lparr>album_pk = next_album_id w, permalink = ?t\<rparr>"
  assume ok: "db_ok w" and v: "validateUuid ?t"
    and fresh: "\<not> list_ex (\<lambda>a. permalink a = ?t) (albums w)"
    and ne: "reqFiles \<noteq> []" and p: "postUpload cfg e reqFiles w = (res, w')"
  have u: "snd (uuidv4 e w) = ?w1" by (simp add: uuidv4_def)
  from postUpload_cases [OF p ne] obtain w2 where
    ut: "upload_try cfg e reqFiles ?t ?w1 = (res, w2)" and w': "w' = upload_finally reqFiles w2"
    by blast
  from upload_try_cases [OF ut] obtain rs where
    f2: "files w2 = files w @ rs"
    and nm: "map original_name rs = take (length rs) (map originalname reqFiles)"
    and ids: "\<forall>r \<in> set rs. album_id r = next_album_id w"
    and full: "res = Response 200 (JsonPermalink ?t) \<longrightarrow> length rs = length reqFiles"
    and al: "albums w2 = albums w \<and> rs = [] \<and> res \<noteq> Response 200 (JsonPermalink ?t)
             \<or> albums w2 = albums w @ [?new]"
    by auto
  have al': "albums w' = albums w2" and fl': "files w' = files w @ rs"
    by (simp_all add: w' upload_finally_fields f2)
  have a: "res = Response 200 (JsonPermalink ?t) \<longrightarrow>
          (\<exists>rs. fst (getAlbum ?t w') = Response 200 (JsonFiles (map file_meta_of rs))
             \<and> map original_name rs = map originalname reqFiles
             \<and> files w' = files w @ rs)"
  proof
    assume s: "res = Response 200 (JsonPermalink ?t)"
    with al have al2: "albums w' = albums w @ [?new]" by (simp add: al')
    from s full nm have "map original_name rs = map originalname reqFiles" by simp
    with getAlbum_upload [OF v fresh ok al2 fl' ids] fl'
    show "\<exists>rs. fst (getAlbum ?t w') = Response 200 (JsonFiles (map file_meta_of rs))
             \<and> map original_name rs = map originalname reqFiles
             \<and> files w' = files w @ rs"
      by blast
  qed
  have b: "fst (getAlbum ?t w') = Response 404 (JsonError ''Album not found'')
          \<or> (\<exists>rs. fst (getAlbum ?t w') = Response 200 (JsonFiles (map file_meta_of rs))
                \<and> map original_name rs = take (length rs) (map originalname reqFiles))"
    using al
  proof
    assume "albums w2 = albums w \<and> rs = [] \<and> res \<noteq> Response 200 (JsonPermalink ?t)"
    then have "\<not> list_ex (\<lambda>a. permalink a = ?t) (albums w')" using fresh by (simp add: al')
    from getAlbum_absent [OF v this] show ?thesis by blast
  next
    assume "albums w2 = albums w @ [?new]"
    then have al2: "albums w' = albums w @ [?new]" by (simp add: al')
    from getAlbum_upload [OF v fresh ok al2 fl' ids] nm show ?thesis by blast
  qed
  have c: "\<forall>albumId wa.
            insertAlbum e ?t (snd (uuidv4 e w)) = (Inr albumId, wa) \<longrightarrow>
              fst (getAlbum ?t wa) = Response 200 (JsonFiles [])
              \<and> (\<forall>fls r2 wm. persist_all cfg e fls albumId wa = (r2, wm) \<longrightarrow>
                    fst (getAlbum ?t wm) = Response 200 (JsonFiles []))
              \<and> (\<forall>rs w2. persist_all cfg e reqFiles albumId wa = (Inr rs, w2) \<longrightarrow>
                    (\<forall>s \<in> set (insertFiles_states e rs w2).
                       \<exists>k \<le> length rs. fst (getAlbum ?t s)
                              = Response 200 (JsonFiles (map file_meta_of (take k rs)))))"
  proof (intro allI impI)
    fix albumId wa
    assume ia: "insertAlbum e ?t (snd (uuidv4 e w)) = (Inr albumId, wa)"
    from insertAlbum_cases [OF ia [unfolded u]]
    have k: "albumId = next_album_id w" and ala: "albums wa = albums w @ [?new]"
      and fa: "files wa = files w"
      by auto
    have c1: "fst (getAlbum ?t wa) = Response 200 (JsonFiles [])"
      using getAlbum_upload [OF v fresh ok ala, of "[]"] fa by simp
    have c2: "\<forall>fls r2 wm. persist_all cfg e fls albumId wa = (r2, wm) \<longrightarrow>
                    fst (getAlbum ?t wm) = Response 200 (JsonFiles [])"
    proof (intro allI impI)
      fix fls r2 wm assume pa: "persist_all cfg e fls albumId wa = (r2, wm)"
      note pf = persist_all_fields [OF pa]
      from getAlbum_upload [OF v fresh ok, of wm "[]"] pf ala fa
      show "fst (getAlbum ?t wm) = Response 200 (JsonFiles [])" by simp
    qed
    have c3: "\<forall>rs w2. persist_all cfg e reqFiles albumId wa = (Inr rs, w2) \<longrightarrow>
                    (\<forall>s \<in> set (insertFiles_states e rs w2).
                       \<exists>k \<le> length rs. fst (getAlbum ?t s)
                              = Response 200 (JsonFiles (map file_meta_of (take k rs))))"
    proof (intro allI impI ballI)
      fix rs w2 s
      assume pa: "persist_all cfg e reqFiles albumId wa = (Inr rs, w2)"
        and s: "s \<in> set (insertFiles_states e rs w2)"
      note pf = persist_all_fields [OF pa]
      from persist_all_records [OF pa] k have ids: "\<forall>r \<in> set rs. album_id r = next_album_id w"
        by auto
      from insertFiles_states_fields [OF s] obtain j where
        j: "j \<le> length rs" "files s = files w2 @ take j rs" and als: "albums s = albums w2"
        by blast
      have "albums s = albums w @ [?new]" "files s = files w @ take j rs"
        using j als pf ala fa by simp_all
      moreover have "\<forall>r \<in> set (take j rs). album_id r = next_album_id w"
        using ids by (auto dest: in_set_takeD)
      ultimately have "fst (getAlbum ?t s) = Response 200 (JsonFiles (map file_meta_of (take j rs)))"
        using getAlbum_upload [OF v fresh ok] by blast
      with j(1) show "\<exists>k \<le> length rs. fst (getAlbum ?t s)
                              = Response 200 (JsonFiles (map file_meta_of (take k rs)))"
        by blast
    qed
    from c1 c2 c3
    show "fst (getAlbum ?t wa) = Response 200 (JsonFiles [])
              \<and> (\<forall>fls r2 wm. persist_all cfg e fls albumId wa = (r2, wm) \<longrightarrow>
                    fst (getAlbum ?t wm) = Response 200 (JsonFiles []))
              \<and> (\<forall>rs w2. persist_all cfg e reqFiles albumId wa = (Inr rs, w2) \<longrightarrow>
                    (\<forall>s \<in> set (insertFiles_states e rs w2).
                       \<exists>k \<le> length rs. fst (getAlbum ?t s)
                              = Response 200 (JsonFiles (map file_meta_of (take k rs)))))"
      by blast
  qed
  from a b c show ?thesis by blast
qed

lemma upload_example:
  "fst (postUpload example_config example_env [photo_file, movie_file] upload_world)
     = Response 200 (JsonPermalink ''11111111-1111-4111-8111-111111111111'')"
  by code_simp

theorem C2_album_visibility_witness:
  "db_ok upload_world
   \<and> validateUuid (uuid_source example_env (uuid_count upload_world))
   \<and> \<not> list_ex (\<lambda>a. permalink a = uuid_source example_env (uuid_count upload_world)) (albums upload_world)
   \<and> fst (postUpload example_config example_env [photo_file, movie_file] upload_world)
       = Response 200 (JsonPermalink ''11111111-1111-4111-8111-111111111111'')
   \<and> (\<exists>rs. fst (getAlbum ''11111111-1111-4111-8111-111111111111''
              (snd (postUpload example_config example_env [photo_file, movie_file] upload_world)))
            = Response 200 (JsonFiles (map file_meta_of rs))
          \<and> map original_name rs = [''cat.png'', ''clip.MOV''])"
proof -
  have 1: "db_ok upload_world" by (simp add: db_ok_def upload_world_def empty_world_def)
  have 2: "validateUuid (uuid_source example_env (uuid_count upload_world))" by (rule example_uuids)
  have 3: "\<not> list_ex (\<lambda>a. permalink a = uuid_source example_env (uuid_count upload_world)) (albums upload_world)"
    by (simp add: upload_world_def empty_world_def)
  have 4: "[photo_file, movie_file] \<noteq> []" by simp
  have 5: "postUpload example_config example_env [photo_file, movie_file] upload_world
           = (fst (postUpload example_config example_env [photo_file, movie_file] upload_world),
              snd (postUpload example_config example_env [photo_file, movie_file] upload_world))"
    by simp
  have t: "uuid_source example_env (uuid_count upload_world) = ''11111111-1111-4111-8111-111111111111''"
    by (simp add: example_env_def upload_world_def empty_world_def)
  from C2_album_visibility [OF 1 2 3 4 5, THEN conjunct1] upload_example
  have "\<exists>rs. fst (getAlbum ''11111111-1111-4111-8111-111111111111''
              (snd (postUpload example_config example_env [photo_file, movie_file] upload_world)))
            = Response 200 (JsonFiles (map file_meta_of rs))
          \<and> map original_name rs = map originalname [photo_file, movie_file]"
    unfolding t by blast
  then have "\<exists>rs. fst (getAlbum ''11111111-1111-4111-8111-111111111111''
              (snd (postUpload example_config example_env [photo_file, movie_file] upload_world)))
            = Response 200 (JsonFiles (map file_meta_of rs))
          \<and> map original_name rs = [''cat.png'', ''clip.MOV'']"
    by (simp add: photo_file_def movie_file_def)
  with 1 2 3 upload_example show ?thesis by blast
qed

subsection \<open>Temporary files\<close>

text \<open>
  C8 does not hold of the code. When the transcoder exits with an error after it has begun
  to write its output, that output file stays in the temporary directory: its path is
  chosen inside \<^verbatim>\<open>convertToMp4\<close> and is returned only when the transcoder succeeds,
  so the \<^verbatim>\<open>finally\<close> block of \<^verbatim>\<open>persistUploadedFile\<close> removes the uploaded
  original only, and no removal of the output is attempted. The upload of one movie on
  which the transcoder fails answers 500, the original is gone, the transcoder's
  output is still there, and it is not among the paths handed to \<^verbatim>\<open>safeUnlink\<close>.
  When the transcoder succeeds on the same request, the output is handed to
  \<^verbatim>\<open>safeUnlink\<close> and is gone afterwards.
\<close>

theorem C8_transcode_output_left:
  "shouldConvertToMp4 movie_file
   \<and> fst (postUpload example_config example_env [movie_file] broken_world)
     = Response 500 (JsonError ''Internal server error'')
   \<and> ffmpeg_runs (log (snd (postUpload example_config example_env [movie_file] broken_world)))
     = [(''/tmp/2-upload.MOV'', ''/tmp/22222222-2222-4222-8222-222222222222.mp4'')]
   \<and> fs (snd (postUpload example_config example_env [movie_file] broken_world)) (tmp_path movie_file)
     = None
   \<and> fs (snd (postUpload example_config example_env [movie_file] broken_world))
        ''/tmp/22222222-2222-4222-8222-222222222222.mp4'' = Some [0]
   \<and> unlinks (log (snd (postUpload example_config example_env [movie_file] broken_world)))
     = [''/tmp/2-upload.MOV'', ''/tmp/2-upload.MOV'']
   \<and> fst (postUpload example_config example_env [movie_file] upload_world)
     = Response 200 (JsonPermalink ''11111111-1111-4111-8111-111111111111'')
   \<and> unlinks (log (snd (postUpload example_config example_env [movie_file] upload_world)))
     = [''/tmp/2-upload.MOV'', ''/tmp/22222222-2222-4222-8222-222222222222.mp4'',
        ''/tmp/2-upload.MOV'']
   \<and> fs (snd (postUpload example_config example_env [movie_file] upload_world))
        ''/tmp/22222222-2222-4222-8222-222222222222.mp4'' = None"
  by code_simp

end
